theory Spec2Isabelle
  imports Main "HOL-Library.Sublist" "HOL-Library.Word"
begin

section \<open>Strings and the slug of a title\<close>

text \<open>
  The generator script is JavaScript, run by Node.js. Its strings are modelled as
  \<^typ>\<open>string\<close>, read as sequences of code units below 256 (the Latin-1 range of UTF-16),
  which covers every title, folder and tag of the script's table. On that range
  \<open>String.prototype.toLowerCase\<close> maps \<open>A\<close>..\<open>Z\<close> and the accented capitals \<open>0xC0\<close>..\<open>0xDE\<close>
  (without the multiplication sign \<open>0xD7\<close>) to the code unit 32 above, and leaves every
  other code unit alone.
\<close>

definition toLowerCase_char :: "char \<Rightarrow> char" where
  "toLowerCase_char c =
     (let n = (of_char c :: nat)
      in if (65 \<le> n \<and> n \<le> 90) \<or> (192 \<le> n \<and> n \<le> 214) \<or> (216 \<le> n \<and> n \<le> 222)
         then char_of (n + 32) else c)"

definition toLowerCase :: "string \<Rightarrow> string" where
  "toLowerCase s = map toLowerCase_char s"

text \<open>The character class \<open>[a-z0-9]\<close> of the two regular expressions in \<open>slugify\<close>.\<close>

definition is_slug_char :: "char \<Rightarrow> bool" where
  "is_slug_char c =
     (let n = (of_char c :: nat) in (97 \<le> n \<and> n \<le> 122) \<or> (48 \<le> n \<and> n \<le> 57))"

text \<open>
  \<open>.replace(/[^a-z0-9]+/g, '-')\<close>: scanning from the left, every maximal run of characters
  outside the class is matched once (the \<open>+\<close> is greedy) and replaced by one hyphen.
\<close>

function replace_runs :: "string \<Rightarrow> string" where
  "replace_runs [] = []"
| "replace_runs (c # cs) =
     (if is_slug_char c then c # replace_runs cs
      else CHR ''-'' # replace_runs (dropWhile (\<lambda>x. \<not> is_slug_char x) cs))"
  by pat_completeness auto
termination
  by (relation "measure length") (auto simp: le_imp_less_Suc length_dropWhile_le)

text \<open>
  \<open>.replace(/(^-|-$)/g, '')\<close>: the first alternative matches a hyphen at index 0, the second
  a hyphen at the last index; matches do not overlap, so a string that is a single hyphen is
  matched once, by the first alternative. At most one character is removed at each end.
\<close>

definition strip_edge_hyphens :: "string \<Rightarrow> string" where
  "strip_edge_hyphens s =
     (let s1 = (case s of [] \<Rightarrow> [] | c # r \<Rightarrow> if c = CHR ''-'' then r else s)
      in if s1 \<noteq> [] \<and> last s1 = CHR ''-'' then butlast s1 else s1)"

definition slugify :: "string \<Rightarrow> string" where
  "slugify title = strip_edge_hyphens (replace_runs (toLowerCase title))"

subsection \<open>The slug as the specification words it\<close>

text \<open>
  The specification's rule, written independently of the regular expressions: walk the
  lower-cased title remembering whether the previous character was outside \<open>[a-z0-9]\<close>,
  emit one hyphen when a run of such characters begins and nothing for the rest of the run;
  then strip all hyphens at both ends.
\<close>

fun collapse_spec :: "bool \<Rightarrow> string \<Rightarrow> string" where
  "collapse_spec in_run [] = []"
| "collapse_spec in_run (c # cs) =
     (if is_slug_char c then c # collapse_spec False cs
      else if in_run then collapse_spec True cs
      else CHR ''-'' # collapse_spec True cs)"

definition strip_all_hyphens :: "string \<Rightarrow> string" where
  "strip_all_hyphens s =
     rev (dropWhile (\<lambda>c. c = CHR ''-'') (rev (dropWhile (\<lambda>c. c = CHR ''-'') s)))"

definition slugify_spec :: "string \<Rightarrow> string" where
  "slugify_spec title = strip_all_hyphens (collapse_spec False (toLowerCase title))"

section \<open>Paths\<close>

text \<open>
  \<open>Array.prototype.join\<close>: the elements, with the separator between neighbours.
\<close>

fun js_join :: "string \<Rightarrow> string list \<Rightarrow> string" where
  "js_join sep [] = []"
| "js_join sep [x] = x"
| "js_join sep (x # y # ys) = x @ sep @ js_join sep (y # ys)"

text \<open>
  \<open>path.join\<close> is Node's, in its POSIX variant: the non-empty arguments are joined with
  \<open>/\<close> and the result is normalised. \<open>normalizeString\<close> walks the segments between
  slashes keeping the resolved segments (here a list, newest first): an empty segment and
  \<open>.\<close> are dropped; \<open>..\<close> removes the newest resolved segment, unless there is none or it
  is itself \<open>..\<close>, in which case \<open>..\<close> is kept for a relative path and dropped for an
  absolute one; any other segment is kept. \<open>normalize\<close> puts back the leading slash of an
  absolute path and one trailing slash when the input had one.
\<close>

fun split_sep :: "string \<Rightarrow> string list" where
  "split_sep [] = [[]]"
| "split_sep (c # cs) =
     (if c = CHR ''/'' then [] # split_sep cs
      else (case split_sep cs of [] \<Rightarrow> [[c]] | s # ss \<Rightarrow> (c # s) # ss))"

definition push_segment :: "bool \<Rightarrow> string list \<Rightarrow> string \<Rightarrow> string list" where
  "push_segment allowAboveRoot res seg =
     (if seg = [] \<or> seg = ''.'' then res
      else if seg = ''..'' then
        (case res of
           [] \<Rightarrow> if allowAboveRoot then [''..''] else []
         | t # below \<Rightarrow>
             if t = ''..'' then (if allowAboveRoot then ''..'' # res else res) else below)
      else seg # res)"

definition normalizeString :: "bool \<Rightarrow> string \<Rightarrow> string" where
  "normalizeString allowAboveRoot path =
     js_join ''/'' (rev (foldl (push_segment allowAboveRoot) [] (split_sep path)))"

definition normalize :: "string \<Rightarrow> string" where
  "normalize path =
     (if path = [] then ''.''
      else let isAbsolute = (hd path = CHR ''/'');
               trailingSeparator = (last path = CHR ''/'');
               p = normalizeString (\<not> isAbsolute) path
           in if p = [] then (if isAbsolute then ''/'' else if trailingSeparator then ''./'' else ''.'')
              else (if isAbsolute then ''/'' else []) @ p @ (if trailingSeparator then ''/'' else []))"

definition path_join :: "string list \<Rightarrow> string" where
  "path_join args =
     (let joined = filter (\<lambda>a. a \<noteq> []) args
      in if joined = [] then ''.'' else normalize (js_join ''/'' joined))"

section \<open>Problem descriptors and the rendered template\<close>

text \<open>
  One element of the script's \<open>problems\<close> array. The script interpolates every field into
  the template as it is, so \<open>difficulty\<close> is the string the table holds. \<open>position\<close> is a
  JavaScript number; the table holds small positive integers. It is modelled as a 53-bit
  unsigned integer, that is, one of the non-negative safe integers \<open>0\<close> to \<open>2^53 - 1\<close>: on
  these, and not beyond, the text a template literal produces for a number is its exact
  decimal numeral. Fractions, negative numbers and larger numbers are outside the model.
\<close>

record problem =
  folder :: string
  position :: "53 word"
  title :: string
  difficulty :: string
  tags :: "string list"

text \<open>
  The decimal numeral of a natural number, most significant digit first, and
  \<open>number_to_string\<close>, the text of \<open>${problem.position}\<close> for a safe integer.
\<close>

definition digit_char :: "nat \<Rightarrow> char" where
  "digit_char k = char_of (48 + k)"

function decimal_digits :: "nat \<Rightarrow> string" where
  "decimal_digits n =
     (if n < 10 then [digit_char n] else decimal_digits (n div 10) @ [digit_char (n mod 10)])"
  by pat_completeness auto
termination
  by (relation "measure id") auto

declare decimal_digits.simps [simp del]

definition number_to_string :: "53 word \<Rightarrow> string" where
  "number_to_string x = decimal_digits (unat x)"

text \<open>
  Reading a rendered number back: the digit characters, and the value of a string of
  digits. They say what it means for the rendered text to contain the position.
\<close>

definition is_digit :: "char \<Rightarrow> bool" where
  "is_digit c = (let n = (of_char c :: nat) in 48 \<le> n \<and> n \<le> 57)"

definition digits_value :: "string \<Rightarrow> nat" where
  "digits_value s = foldl (\<lambda>a c. 10 * a + (of_char c - 48)) 0 s"

text \<open>The template literal of \<open>generateProblemTemplate\<close>, line by line.\<close>

definition generateProblemTemplate :: "problem \<Rightarrow> string" where
  "generateProblemTemplate problem =
     (let slug = slugify (title problem);
          tagsString = js_join '', '' (map (\<lambda>tag. ''\"'' @ tag @ ''\"'') (tags problem))
      in
       ''---\<newline>''
       @ ''sidebar_position: '' @ number_to_string (position problem) @ ''\<newline>''
       @ ''title: \"'' @ title problem @ ''\"\<newline>''
       @ ''tags: ['' @ tagsString @ '']\<newline>''
       @ ''---\<newline>''
       @ ''\<newline>''
       @ ''# '' @ title problem @ ''\<newline>''
       @ ''\<newline>''
       @ ''> **Difficulty:** '' @ difficulty problem @ ''\<newline>''
       @ ''\<newline>''
       @ ''[View on LeetCode](https://leetcode.com/problems/'' @ slug @ ''/)\<newline>''
       @ ''\<newline>''
       @ ''***\<newline>''
       @ ''\<newline>''
       @ ''### Problem Statement\<newline>''
       @ ''\<newline>''
       @ ''_Add problem description here._\<newline>''
       @ ''\<newline>''
       @ ''***\<newline>''
       @ ''\<newline>''
       @ ''### Intuition\<newline>''
       @ ''\<newline>''
       @ ''_Explain the core idea behind your solution._\<newline>''
       @ ''\<newline>''
       @ ''***\<newline>''
       @ ''\<newline>''
       @ ''### Approach\<newline>''
       @ ''\<newline>''
       @ ''1. _Step 1 description_\<newline>''
       @ ''2. _Step 2 description_\<newline>''
       @ ''3. _Step 3 description_\<newline>''
       @ ''\<newline>''
       @ ''***\<newline>''
       @ ''\<newline>''
       @ ''### Complexity\<newline>''
       @ ''\<newline>''
       @ ''#### Time complexity: $O(N)$\<newline>''
       @ ''\<newline>''
       @ ''_Explain time complexity._\<newline>''
       @ ''\<newline>''
       @ ''#### Space complexity: $O(1)$\<newline>''
       @ ''\<newline>''
       @ ''_Explain space complexity._\<newline>''
       @ ''\<newline>''
       @ ''***\<newline>''
       @ ''\<newline>''
       @ ''### Code\<newline>''
       @ ''\<newline>''
       @ ''```javascript\<newline>''
       @ ''/**\<newline>''
       @ '' * Solution for '' @ title problem @ ''\<newline>''
       @ '' */\<newline>''
       @ ''function solution() {\<newline>''
       @ ''    // Your code here\<newline>''
       @ ''}\<newline>''
       @ ''```\<newline>''
       @ ''\<newline>''
       @ ''***\<newline>''
       @ ''\<newline>''
       @ ''### Notes\<newline>''
       @ ''\<newline>''
       @ ''_Add any additional notes, edge cases, or alternative approaches here._\<newline>'')"

section \<open>The file system and the script\<close>

text \<open>
  The file system as the script sees it: what is stored under a path (the script only ever
  uses the normalised absolute paths \<open>path.join\<close> returns, so entries are keyed by them),
  and \<open>writable\<close>, which says for each path whether the operating system would accept
  writing a file there (the parent directory exists, permissions allow it, there is space).
  \<open>fs.existsSync\<close> is true for a file and for a directory. \<open>fs.writeFileSync\<close> creates
  or replaces the file, or throws; a write that throws leaves the file system as it was.
\<close>

datatype node = File string | Directory

record filesystem =
  entries :: "string \<Rightarrow> node option"
  writable :: "string \<Rightarrow> bool"

datatype io_error = WriteFailed string

definition existsSync :: "filesystem \<Rightarrow> string \<Rightarrow> bool" where
  "existsSync fs path = (entries fs path \<noteq> None)"

definition writeFileSync :: "filesystem \<Rightarrow> string \<Rightarrow> string \<Rightarrow> io_error + filesystem" where
  "writeFileSync fs path data =
     (if writable fs path \<and> entries fs path \<noteq> Some Directory
      then Inr (fs\<lparr>entries := (entries fs)(path \<mapsto> File data)\<rparr>)
      else Inl (WriteFailed path))"

text \<open>
  What the script prints to standard output: its three \<open>console.log\<close> calls, the first two
  carrying the file path. Each line starts with an emoji, which lies outside the modelled
  range of code units (the last one after an empty line); \<open>line_text\<close> is the rest of the
  line. The state of a run is the file system and the lines printed so far.
\<close>

datatype log_line = Skipping string | Created string | AllGenerated

fun line_text :: "log_line \<Rightarrow> string" where
  "line_text (Skipping path) = ''Skipping (already exists): '' @ path"
| "line_text (Created path) = ''Created: '' @ path"
| "line_text AllGenerated = ''All LeetCode 75 problem files generated!''"

record run_state =
  disk :: filesystem
  stdout :: "log_line list"

text \<open>
  The body of the \<open>forEach\<close> callback. \<open>dirname\<close> is \<open>__dirname\<close>, the directory of the
  script. An exception of \<open>writeFileSync\<close> is not caught anywhere: it ends the callback, the
  loop and the process, so the final \<open>console.log\<close> of the script is not reached.
\<close>

definition docsPath :: "string \<Rightarrow> problem \<Rightarrow> string" where
  "docsPath dirname problem =
     path_join [dirname, ''..'', ''docs'', ''leetcode-75'', folder problem]"

definition filepath :: "string \<Rightarrow> problem \<Rightarrow> string" where
  "filepath dirname problem =
     (let slug = slugify (title problem);
          filename = slug @ ''.mdx''
      in path_join [docsPath dirname problem, filename])"

definition process_problem :: "string \<Rightarrow> problem \<Rightarrow> run_state \<Rightarrow> io_error + run_state" where
  "process_problem dirname problem st =
     (if existsSync (disk st) (filepath dirname problem)
      then Inr (st\<lparr>stdout := stdout st @ [Skipping (filepath dirname problem)]\<rparr>)
      else
        (let content = generateProblemTemplate problem
         in case writeFileSync (disk st) (filepath dirname problem) content of
              Inl e \<Rightarrow> Inl e
            | Inr fs' \<Rightarrow>
                Inr \<lparr>disk = fs', stdout = stdout st @ [Created (filepath dirname problem)]\<rparr>))"

fun forEach :: "string \<Rightarrow> problem list \<Rightarrow> run_state \<Rightarrow> io_error option \<times> run_state" where
  "forEach dirname [] st = (None, st)"
| "forEach dirname (problem # rest) st =
     (case process_problem dirname problem st of
        Inl e \<Rightarrow> (Some e, st)
      | Inr st' \<Rightarrow> forEach dirname rest st')"

definition run_script :: "string \<Rightarrow> problem list \<Rightarrow> filesystem \<Rightarrow> io_error option \<times> run_state" where
  "run_script dirname problems fs0 =
     (case forEach dirname problems \<lparr>disk = fs0, stdout = []\<rparr> of
        (Some e, st) \<Rightarrow> (Some e, st)
      | (None, st) \<Rightarrow> (None, st\<lparr>stdout := stdout st @ [AllGenerated]\<rparr>))"

section \<open>Auxiliary notions\<close>

text \<open>
  Counting the lines of a report by kind, for the question whether the summary line tells
  how many files were created or skipped.
\<close>

fun is_created :: "log_line \<Rightarrow> bool" where
  "is_created (Created path) = True"
| "is_created _ = False"

fun is_skipping :: "log_line \<Rightarrow> bool" where
  "is_skipping (Skipping path) = True"
| "is_skipping _ = False"

text \<open>
  Notions used in the proofs: a string without two adjacent hyphens; a well-formed list of
  resolved segments, as \<open>normalizeString\<close> builds it; the resolved segments of a path; a
  segment that \<open>normalizeString\<close> keeps as it is; replacing what is stored under one path.
\<close>

fun no_double_hyphen :: "string \<Rightarrow> bool" where
  "no_double_hyphen (a # b # cs) =
     (\<not> (a = CHR ''-'' \<and> b = CHR ''-'') \<and> no_double_hyphen (b # cs))"
| "no_double_hyphen _ = True"

fun wf_stack :: "bool \<Rightarrow> string list \<Rightarrow> bool" where
  "wf_stack allow [] = True"
| "wf_stack allow (s # res) =
     (s \<noteq> [] \<and> s \<noteq> ''.'' \<and> CHR ''/'' \<notin> set s
      \<and> (s = ''..'' \<longrightarrow> allow \<and> (res = [] \<or> hd res = ''..''))
      \<and> wf_stack allow res)"

definition stack_of :: "string \<Rightarrow> string list" where
  "stack_of p = foldl (push_segment (hd p \<noteq> CHR ''/'')) [] (split_sep p)"

definition plain_segment :: "string \<Rightarrow> bool" where
  "plain_segment s = (s \<noteq> [] \<and> s \<noteq> ''.'' \<and> s \<noteq> ''..'' \<and> CHR ''/'' \<notin> set s)"

definition put_entry :: "string \<Rightarrow> node \<Rightarrow> run_state \<Rightarrow> run_state" where
  "put_entry x n s = s\<lparr>disk := (disk s)\<lparr>entries := (entries (disk s))(x \<mapsto> n)\<rparr>\<rparr>"

text \<open>
  Concrete inputs: the first entry of the table's \<open>stack\<close> group, a descriptor whose title
  has the same slug (and whose tags repeat one), one whose title has no letter or digit, and three file systems: an
  empty one where every write succeeds, one where the note for the first descriptor has
  been written and edited by hand, and an empty one where only \<open>.mdx\<close> in the \<open>stack\<close>
  directory can be written.
\<close>

definition removing_stars :: problem where
  "removing_stars =
     \<lparr>folder = ''stack'', position = 1, title = ''Removing Stars From a String'',
      difficulty = ''Medium'', tags = [''String'', ''Stack'', ''Simulation'']\<rparr>"

definition removing_stars_again :: problem where
  "removing_stars_again =
     \<lparr>folder = ''stack'', position = 4, title = ''removing stars: from a STRING'',
      difficulty = ''Hard'', tags = [''Stack'', ''String'', ''Stack'']\<rparr>"

definition untitled :: problem where
  "untitled =
     \<lparr>folder = ''stack'', position = 5, title = ''???'', difficulty = ''Easy'', tags = []\<rparr>"

definition empty_disk :: filesystem where
  "empty_disk = \<lparr>entries = (\<lambda>path. None), writable = (\<lambda>path. True)\<rparr>"

definition edited_disk :: filesystem where
  "edited_disk =
     \<lparr>entries = (\<lambda>path. if path = ''/repo/docs/leetcode-75/stack/removing-stars-from-a-string.mdx''
                         then Some (File ''my solution'') else None),
      writable = (\<lambda>path. True)\<rparr>"

definition locked_disk :: filesystem where
  "locked_disk =
     \<lparr>entries = (\<lambda>path. None),
      writable = (\<lambda>path. path = ''/repo/docs/leetcode-75/stack/.mdx'')\<rparr>"

section \<open>Properties of the slug\<close>

lemma hyphen_not_slug_char: "\<not> is_slug_char CHR ''-''"
  by (simp add: is_slug_char_def)

lemma collapse_spec_replace_runs:
  "collapse_spec False s = replace_runs s \<and>
   collapse_spec True s = replace_runs (dropWhile (\<lambda>x. \<not> is_slug_char x) s)"
  by (induction s) auto

lemma dropWhile_head: "dropWhile P xs = [] \<or> \<not> P (hd (dropWhile P xs))"
  by (metis hd_dropWhile)

lemma no_double_hyphen_replace_runs: "no_double_hyphen (replace_runs s)"
proof (induction s rule: replace_runs.induct)
  case 1
  then show ?case by simp
next
  case (2 c cs)
  show ?case
  proof (cases "is_slug_char c")
    case True
    with 2 show ?thesis
      using hyphen_not_slug_char by (cases "replace_runs cs") auto
  next
    case False
    let ?d = "dropWhile (\<lambda>x. \<not> is_slug_char x) cs"
    have ih: "no_double_hyphen (replace_runs ?d)" using 2 False by simp
    show ?thesis
    proof (cases ?d)
      case Nil
      then have "replace_runs ?d = []" by (simp only: replace_runs.simps)
      with False show ?thesis by (simp del: dropWhile_eq_Nil_conv)
    next
      case (Cons d ds)
      then have "is_slug_char d"
        using dropWhile_head[of "\<lambda>x. \<not> is_slug_char x" cs] by simp
      then have "replace_runs ?d = d # replace_runs ds" "d \<noteq> CHR ''-''"
        using Cons hyphen_not_slug_char by auto
      with ih False show ?thesis by simp
    qed
  qed
qed

lemma no_double_hyphen_tl: "no_double_hyphen (a # r) \<Longrightarrow> no_double_hyphen r"
  by (cases r) auto

lemma no_double_hyphen_snoc:
  "no_double_hyphen (r @ [CHR ''-'']) \<Longrightarrow> r = [] \<or> last r \<noteq> CHR ''-''"
  by (induction r rule: no_double_hyphen.induct) auto

lemma strip_front:
  assumes "no_double_hyphen s"
  shows "dropWhile (\<lambda>c. c = CHR ''-'') s =
         (case s of [] \<Rightarrow> [] | c # r \<Rightarrow> if c = CHR ''-'' then r else s)"
  using assms by (cases s rule: no_double_hyphen.cases) auto

lemma strip_back:
  assumes "no_double_hyphen s"
  shows "rev (dropWhile (\<lambda>c. c = CHR ''-'') (rev s)) =
         (if s \<noteq> [] \<and> last s = CHR ''-'' then butlast s else s)"
proof (cases "s \<noteq> [] \<and> last s = CHR ''-''")
  case True
  then obtain r where s: "s = r @ [CHR ''-'']" by (metis append_butlast_last_id)
  with assms have "r = [] \<or> last r \<noteq> CHR ''-''" using no_double_hyphen_snoc by blast
  then have "dropWhile (\<lambda>c. c = CHR ''-'') (rev r) = rev r"
    by (cases r rule: rev_cases) auto
  with s show ?thesis by simp
next
  case False
  then have "dropWhile (\<lambda>c. c = CHR ''-'') (rev s) = rev s"
    by (cases s rule: rev_cases) auto
  with False show ?thesis by auto
qed

lemma no_double_hyphen_strip_front:
  "no_double_hyphen s \<Longrightarrow>
   no_double_hyphen (case s of [] \<Rightarrow> [] | c # r \<Rightarrow> if c = CHR ''-'' then r else s)"
  by (cases s) (auto dest: no_double_hyphen_tl)

lemma strip_edge_is_strip_all:
  "no_double_hyphen s \<Longrightarrow> strip_edge_hyphens s = strip_all_hyphens s"
  unfolding strip_edge_hyphens_def strip_all_hyphens_def Let_def
  using strip_front[of s] strip_back[OF no_double_hyphen_strip_front, of s] by simp

lemma slugify_eq_spec: "slugify t = slugify_spec t"
  unfolding slugify_def slugify_spec_def
  by (simp add: collapse_spec_replace_runs strip_edge_is_strip_all
      no_double_hyphen_replace_runs)

lemma set_replace_runs: "set (replace_runs s) \<subseteq> {c. is_slug_char c} \<union> {CHR ''-''}"
  by (induction s rule: replace_runs.induct) auto

lemma set_strip_edge_hyphens: "set (strip_edge_hyphens s) \<subseteq> set s"
proof -
  have "set (butlast xs) \<subseteq> set xs" for xs :: string by (auto dest: in_set_butlastD)
  then show ?thesis
    by (cases s) (auto simp: strip_edge_hyphens_def Let_def dest: in_set_butlastD)
qed

lemma slugify_chars: "set (slugify t) \<subseteq> {c. is_slug_char c} \<union> {CHR ''-''}"
  unfolding slugify_def using set_strip_edge_hyphens set_replace_runs by blast

lemma replace_runs_no_slug_char:
  "\<forall>c\<in>set s. \<not> is_slug_char c \<Longrightarrow> replace_runs s = (if s = [] then [] else ''-'')"
proof (cases s)
  case Nil
  then show ?thesis by simp
next
  case (Cons c cs)
  assume a: "\<forall>c\<in>set s. \<not> is_slug_char c"
  with Cons have "dropWhile (\<lambda>x. \<not> is_slug_char x) cs = []" by simp
  then have "replace_runs (dropWhile (\<lambda>x. \<not> is_slug_char x) cs) = []" by (simp only: replace_runs.simps)
  with a Cons show ?thesis by (simp del: dropWhile_eq_Nil_conv)
qed

lemma slugify_empty:
  "\<forall>c\<in>set (toLowerCase t). \<not> is_slug_char c \<Longrightarrow> slugify t = []"
  by (simp add: slugify_def replace_runs_no_slug_char strip_edge_hyphens_def)

text \<open>
  Claim C3. For every title, \<open>slugify\<close> returns the title lower-cased, with every maximal run
  of characters outside \<open>[a-z0-9]\<close> collapsed to one hyphen and the hyphens at both ends
  stripped (the specification's rule, \<open>slugify_spec\<close>); it is a function of the title alone,
  so equal titles have equal slugs; and the title \<open>N-th Tribonacci Number\<close> has the slug
  \<open>n-th-tribonacci-number\<close>.
\<close>

theorem slugify_correct:
  "slugify t = slugify_spec t
   \<and> (t1 = t2 \<longrightarrow> slugify t1 = slugify t2)
   \<and> slugify ''N-th Tribonacci Number'' = ''n-th-tribonacci-number''"
proof -
  have "slugify ''N-th Tribonacci Number'' = ''n-th-tribonacci-number''"
    by code_simp
  then show ?thesis
    by (simp add: slugify_eq_spec)
qed

theorem slugify_correct_witness:
  "slugify ''Move Zeroes'' = slugify_spec ''Move Zeroes''
   \<and> ''Is Subsequence'' = ''Is Subsequence''
   \<and> slugify ''Is Subsequence'' = slugify ''Is Subsequence''
   \<and> slugify ''N-th Tribonacci Number'' = ''n-th-tribonacci-number''"
  using slugify_correct [of "''Move Zeroes''" "''Is Subsequence''" "''Is Subsequence''"]
  by simp

section \<open>Properties of \<open>path.join\<close>\<close>

subsection \<open>Splitting and joining\<close>

lemma split_sep_nonempty: "split_sep s \<noteq> []"
  by (induction s) (auto split: list.splits)

lemma split_sep_append: "split_sep (a @ CHR ''/'' # b) = split_sep a @ split_sep b"
  by (induction a) (auto split: list.splits simp: split_sep_nonempty)

lemma split_sep_no_sep: "CHR ''/'' \<notin> set s \<Longrightarrow> split_sep s = [s]"
  by (induction s) auto

lemma split_sep_join:
  "segs \<noteq> [] \<Longrightarrow> \<forall>s\<in>set segs. CHR ''/'' \<notin> set s \<Longrightarrow> split_sep (js_join ''/'' segs) = segs"
proof (induction segs rule: induct_list012)
  case 1 then show ?case by simp
next
  case (2 x) then show ?case by (simp add: split_sep_no_sep)
next
  case (3 x y ys)
  then show ?case using split_sep_append[of x "js_join ''/'' (y # ys)"]
    by (simp add: split_sep_no_sep)
qed

lemma set_split_sep: "s \<in> set (split_sep p) \<Longrightarrow> CHR ''/'' \<notin> set s"
  by (induction p arbitrary: s) (auto split: list.splits if_splits)

lemma js_join_append:
  "xs \<noteq> [] \<Longrightarrow> ys \<noteq> [] \<Longrightarrow> js_join sep (xs @ ys) = js_join sep xs @ sep @ js_join sep ys"
  by (induction xs rule: induct_list012) (auto simp: neq_Nil_conv)

lemma js_join_eq_Nil: "\<forall>s\<in>set segs. s \<noteq> [] \<Longrightarrow> js_join sep segs = [] \<longleftrightarrow> segs = []"
  by (induction segs rule: induct_list012) auto

lemma js_join_nonempty:
  "segs \<noteq> [] \<Longrightarrow> \<forall>s\<in>set segs. s \<noteq> [] \<Longrightarrow> js_join sep segs \<noteq> []"
  using js_join_eq_Nil[of segs sep] by simp

lemma hd_js_join: "segs \<noteq> [] \<Longrightarrow> hd segs \<noteq> [] \<Longrightarrow> hd (js_join sep segs) = hd (hd segs)"
  by (induction segs rule: induct_list012) auto

lemma js_join_last_nonempty:
  "segs \<noteq> [] \<Longrightarrow> last segs \<noteq> [] \<Longrightarrow> js_join sep segs \<noteq> []"
  by (induction segs rule: induct_list012) auto

lemma last_js_join:
  "segs \<noteq> [] \<Longrightarrow> last segs \<noteq> [] \<Longrightarrow> last (js_join sep segs) = last (last segs)"
proof (induction segs rule: induct_list012)
  case (3 x y zs)
  then have "js_join sep (y # zs) \<noteq> []" using js_join_last_nonempty[of "y # zs" sep] by simp
  with 3 show ?case by simp
qed auto

subsection \<open>Resolved segments\<close>

lemma push_segment_wf:
  "wf_stack allow res \<Longrightarrow> CHR ''/'' \<notin> set seg \<Longrightarrow> wf_stack allow (push_segment allow res seg)"
  by (cases res) (auto simp: push_segment_def)

lemma foldl_push_wf:
  "wf_stack allow res \<Longrightarrow> \<forall>seg\<in>set segs. CHR ''/'' \<notin> set seg \<Longrightarrow>
   wf_stack allow (foldl (push_segment allow) res segs)"
  by (induction segs arbitrary: res) (auto simp: push_segment_wf)

lemma push_segment_wf_id:
  "wf_stack allow (s # res) \<Longrightarrow> push_segment allow res s = s # res"
  by (cases res) (auto simp: push_segment_def)

lemma refold_wf:
  "wf_stack allow res \<Longrightarrow> foldl (push_segment allow) [] (rev res) = res"
  by (induction res) (auto simp: push_segment_wf_id)

lemma wf_stack_no_sep: "wf_stack allow res \<Longrightarrow> \<forall>s\<in>set res. s \<noteq> [] \<and> CHR ''/'' \<notin> set s"
  by (induction res) auto

lemma wf_stack_of: "wf_stack (hd p \<noteq> CHR ''/'') (stack_of p)"
  unfolding stack_of_def by (rule foldl_push_wf) (auto dest: set_split_sep)

lemma push_segment_plain: "plain_segment s \<Longrightarrow> push_segment a res s = s # res"
  by (simp add: push_segment_def plain_segment_def)

lemma foldl_push_plain:
  "\<forall>s\<in>set segs. plain_segment s \<Longrightarrow> foldl (push_segment a) res segs = rev segs @ res"
  by (induction segs arbitrary: res) (auto simp: push_segment_plain)

lemma push_segment_dotdot:
  "plain_segment s \<Longrightarrow> push_segment a (s # res) ''..'' = res"
  by (simp add: push_segment_def plain_segment_def)

subsection \<open>Normalising a path that is already normalised\<close>

lemma normalize_alt:
  "p \<noteq> [] \<Longrightarrow> normalize p =
     (if stack_of p = [] then (if hd p = CHR ''/'' then ''/'' else if last p = CHR ''/'' then ''./'' else ''.'')
      else (if hd p = CHR ''/'' then ''/'' else []) @ js_join ''/'' (rev (stack_of p))
           @ (if last p = CHR ''/'' then ''/'' else []))"
proof -
  have "\<forall>s\<in>set (rev (stack_of p)). s \<noteq> []"
    using wf_stack_no_sep[OF wf_stack_of, of p] by simp
  then have "js_join ''/'' (rev (stack_of p)) = [] \<longleftrightarrow> stack_of p = []"
    using js_join_eq_Nil[of "rev (stack_of p)" "''/''"] by simp
  then show "p \<noteq> [] \<Longrightarrow> ?thesis"
    by (simp add: normalize_def normalizeString_def stack_of_def Let_def)
qed

lemma body_nonempty: "stack_of p \<noteq> [] \<Longrightarrow> js_join ''/'' (rev (stack_of p)) \<noteq> []"
  using wf_stack_no_sep[OF wf_stack_of, of p] js_join_eq_Nil[of "rev (stack_of p)" "''/''"]
  by simp

lemma normalize_nonempty: "normalize p \<noteq> []"
proof (cases "p = []")
  case True
  then show ?thesis by (simp add: normalize_def)
next
  case False
  then show ?thesis by (simp add: normalize_alt body_nonempty)
qed

lemma hd_normalize: "p \<noteq> [] \<Longrightarrow> (hd (normalize p) = CHR ''/'') = (hd p = CHR ''/'')"
proof -
  assume p: "p \<noteq> []"
  show ?thesis
  proof (cases "stack_of p = []")
    case True
    then show ?thesis using p by (simp add: normalize_alt)
  next
    case False
    let ?segs = "rev (stack_of p)"
    have ne: "\<forall>s\<in>set ?segs. s \<noteq> [] \<and> CHR ''/'' \<notin> set s"
      using wf_stack_no_sep[OF wf_stack_of, of p] by simp
    moreover have "hd ?segs \<in> set ?segs" using False by (intro hd_in_set) simp
    ultimately have h: "hd ?segs \<noteq> [] \<and> CHR ''/'' \<notin> set (hd ?segs)" by blast
    then have "hd (js_join ''/'' ?segs) = hd (hd ?segs)" using False hd_js_join by simp
    moreover have "hd (hd ?segs) \<noteq> CHR ''/''" using h by (cases "hd ?segs") auto
    moreover have "js_join ''/'' ?segs \<noteq> []" using ne False js_join_eq_Nil[of ?segs] by simp
    ultimately show ?thesis using p False by (simp add: normalize_alt)
  qed
qed

lemma stack_of_normalize:
  assumes "p \<noteq> []"
  shows "foldl (push_segment (hd p \<noteq> CHR ''/'')) [] (split_sep (normalize p)) = stack_of p"
proof (cases "stack_of p = []")
  case True
  have "foldl (push_segment a) [] (split_sep ''/'') = []"
       "foldl (push_segment a) [] (split_sep ''./'') = []"
       "foldl (push_segment a) [] (split_sep ''.'') = []" for a
    by (simp_all add: push_segment_def)
  then show ?thesis using assms True by (simp add: normalize_alt)
next
  case False
  let ?a = "hd p \<noteq> CHR ''/''"
  let ?segs = "rev (stack_of p)"
  let ?body = "js_join ''/'' ?segs"
  have ne: "\<forall>s\<in>set ?segs. CHR ''/'' \<notin> set s"
    using wf_stack_no_sep[OF wf_stack_of, of p] by simp
  have sp: "split_sep ?body = ?segs" using False ne by (simp add: split_sep_join)
  have re: "foldl (push_segment ?a) [] ?segs = stack_of p"
    using refold_wf[OF wf_stack_of] .
  have a1: "split_sep (CHR ''/'' # s) = [] # split_sep s" for s by simp
  have a2: "split_sep (s @ ''/'') = split_sep s @ [[]]" for s
    using split_sep_append[of s "[]"] by simp
  have a3: "foldl (push_segment a) [] ([] # xs) = foldl (push_segment a) [] xs" for xs a
    by (simp add: push_segment_def)
  have a4: "foldl (push_segment a) [] (xs @ [[]]) = foldl (push_segment a) [] xs" for xs a
    by (simp add: push_segment_def)
  show ?thesis
  proof (cases "hd p = CHR ''/''")
    case True
    with re have "foldl (push_segment False) [] ?segs = stack_of p" by simp
    with assms False sp True show ?thesis
      by (simp add: normalize_alt a1 a2 a3 a4 del: split_sep.simps foldl_Cons foldl_append)
  next
    case nabs: False
    with re have "foldl (push_segment True) [] ?segs = stack_of p" by simp
    with assms False sp nabs show ?thesis
      by (simp add: normalize_alt a1 a2 a3 a4 del: split_sep.simps foldl_Cons foldl_append)
  qed
qed

lemma normalize_append:
  assumes "p \<noteq> []"
  shows "normalize (normalize p @ CHR ''/'' # b) = normalize (p @ CHR ''/'' # b)"
proof -
  let ?n = "normalize p"
  have hd1: "hd (?n @ CHR ''/'' # b) = hd ?n" using normalize_nonempty[of p] by simp
  have hd2: "hd (p @ CHR ''/'' # b) = hd p" using assms by simp
  have abs: "(hd ?n = CHR ''/'') = (hd p = CHR ''/'')" using hd_normalize[OF assms] .
  have "stack_of (?n @ CHR ''/'' # b)
        = foldl (push_segment (hd p \<noteq> CHR ''/'')) (stack_of p) (split_sep b)"
    unfolding stack_of_def[of "?n @ CHR ''/'' # b"] hd1 abs split_sep_append
    using stack_of_normalize[OF assms] by simp
  moreover have "stack_of (p @ CHR ''/'' # b)
        = foldl (push_segment (hd p \<noteq> CHR ''/'')) (stack_of p) (split_sep b)"
    unfolding stack_of_def[of "p @ CHR ''/'' # b"] hd2 split_sep_append
    by (simp add: stack_of_def)
  ultimately have st: "stack_of (?n @ CHR ''/'' # b) = stack_of (p @ CHR ''/'' # b)" by simp
  have "normalize (?n @ CHR ''/'' # b) =
     (if stack_of (p @ CHR ''/'' # b) = [] then (if hd p = CHR ''/'' then ''/'' else if last (CHR ''/'' # b) = CHR ''/'' then ''./'' else ''.'')
      else (if hd p = CHR ''/'' then ''/'' else []) @ js_join ''/'' (rev (stack_of (p @ CHR ''/'' # b)))
           @ (if last (CHR ''/'' # b) = CHR ''/'' then ''/'' else []))"
    using normalize_alt[of "?n @ CHR ''/'' # b"] st hd1 abs by simp
  moreover have "normalize (p @ CHR ''/'' # b) =
     (if stack_of (p @ CHR ''/'' # b) = [] then (if hd p = CHR ''/'' then ''/'' else if last (CHR ''/'' # b) = CHR ''/'' then ''./'' else ''.'')
      else (if hd p = CHR ''/'' then ''/'' else []) @ js_join ''/'' (rev (stack_of (p @ CHR ''/'' # b)))
           @ (if last (CHR ''/'' # b) = CHR ''/'' then ''/'' else []))"
    using normalize_alt[of "p @ CHR ''/'' # b"] hd2 by simp
  ultimately show ?thesis by simp
qed

lemma normalize_child:
  assumes "P \<noteq> []" "hd P = CHR ''/''" "plain_segment seg"
  shows "normalize (normalize P @ CHR ''/'' # seg)
         = (if last (normalize P) = CHR ''/'' then normalize P @ seg else normalize P @ CHR ''/'' # seg)"
proof -
  let ?Q = "P @ CHR ''/'' # seg"
  let ?st = "stack_of P"
  let ?body = "js_join ''/'' (rev ?st)"
  have seg: "seg \<noteq> []" "CHR ''/'' \<notin> set seg" using assms(3) by (auto simp: plain_segment_def)
  have hdQ: "hd ?Q = CHR ''/''" using assms(1,2) by simp
  have lastQ: "last ?Q \<noteq> CHR ''/''" using seg by (metis last_appendR last_ConsR last_in_set list.distinct(1))
  have "stack_of ?Q = foldl (push_segment False) ?st (split_sep seg)"
    unfolding stack_of_def[of ?Q] hdQ split_sep_append using assms(2) by (simp add: stack_of_def)
  then have stQ: "stack_of ?Q = seg # ?st"
    using seg assms(3) by (simp add: split_sep_no_sep push_segment_plain)
  have nQ: "normalize ?Q = CHR ''/'' # js_join ''/'' (rev ?st @ [seg])"
    using normalize_alt[of ?Q] hdQ lastQ stQ by simp
  have nP: "normalize P = (if ?st = [] then ''/'' else CHR ''/'' # ?body @ (if last P = CHR ''/'' then ''/'' else []))"
    using normalize_alt[OF assms(1)] assms(2) by simp
  have "normalize ?Q = (if last (normalize P) = CHR ''/'' then normalize P @ seg else normalize P @ CHR ''/'' # seg)"
  proof (cases "?st = []")
    case True
    with nQ nP show ?thesis by simp
  next
    case False
    then have b: "js_join ''/'' (rev ?st @ [seg]) = ?body @ CHR ''/'' # seg"
      using js_join_append[of "rev ?st" "[seg]" "''/''"] by simp
    have bne: "?body \<noteq> []" using False by (rule body_nonempty)
    show ?thesis
    proof (cases "last P = CHR ''/''")
      case True
      with nQ nP False b show ?thesis by simp
    next
      case nt: False
      have top: "hd ?st \<noteq> [] \<and> CHR ''/'' \<notin> set (hd ?st)"
        using wf_stack_no_sep[OF wf_stack_of, of P] False by (simp add: hd_in_set)
      have "last ?body = last (last (rev ?st))"
        using False top by (intro last_js_join) (simp_all add: last_rev)
      also have "\<dots> = last (hd ?st)" using False by (simp add: last_rev)
      finally have "last ?body \<noteq> CHR ''/''" using top by (metis last_in_set)
      with nQ nP False b nt bne show ?thesis by simp
    qed
  qed
  with normalize_append[OF assms(1), of seg] show ?thesis by simp
qed

lemma normalize_plain_up:
  assumes "ds \<noteq> []" "\<forall>s\<in>set ds. plain_segment s" "rest \<noteq> []" "\<forall>s\<in>set rest. plain_segment s"
  shows "normalize (CHR ''/'' # js_join ''/'' (ds @ ''..'' # rest))
         = CHR ''/'' # js_join ''/'' (butlast ds @ rest)"
proof -
  let ?segs = "ds @ ''..'' # rest"
  let ?p = "CHR ''/'' # js_join ''/'' ?segs"
  have nosep: "\<forall>s\<in>set ?segs. CHR ''/'' \<notin> set s"
    using assms(2,4) by (auto simp: plain_segment_def)
  have split: "split_sep ?p = [] # ?segs"
    using split_sep_join[OF _ nosep] by simp
  have ds: "rev ds = last ds # rev (butlast ds)"
    using assms(1) by (cases ds rule: rev_cases) auto
  have "plain_segment (last ds)" using assms(1,2) by simp
  then have up: "push_segment False (rev ds) ''..'' = rev (butlast ds)"
    unfolding ds by (rule push_segment_dotdot)
  have st: "stack_of ?p = rev rest @ rev (butlast ds)"
    unfolding stack_of_def split using assms(2,4) up
    by (simp add: push_segment_def[of _ _ "[]"] foldl_push_plain)
  have last_rest: "last rest \<noteq> []" "CHR ''/'' \<notin> set (last rest)"
    using assms(3,4) by (auto simp: plain_segment_def)
  have "last ?p = last (last ?segs)"
    using last_js_join[of ?segs "''/''"] js_join_last_nonempty[of ?segs "''/''"] last_rest assms(3)
    by simp
  also have "\<dots> = last (last rest)" using assms(3) by simp
  finally have nl: "last ?p \<noteq> CHR ''/''" using last_rest by (metis last_in_set)
  show ?thesis
    using normalize_alt[of ?p] st nl assms(3) by simp
qed

text \<open>
  Joining in two steps is joining in one, as long as each step has a non-empty argument.
\<close>

lemma path_join_assoc:
  assumes "filter (\<lambda>a. a \<noteq> []) xs \<noteq> []" "filter (\<lambda>a. a \<noteq> []) ys \<noteq> []"
  shows "path_join (path_join xs # ys) = path_join (xs @ ys)"
proof -
  let ?fx = "filter (\<lambda>a. a \<noteq> []) xs" and ?fy = "filter (\<lambda>a. a \<noteq> []) ys"
  let ?P = "js_join ''/'' ?fx" and ?Y = "js_join ''/'' ?fy"
  have P: "?P \<noteq> []" using assms(1) by (intro js_join_nonempty) auto
  have px: "path_join xs = normalize ?P" using assms(1) by (simp add: path_join_def)
  obtain y ys' where fy: "?fy = y # ys'" using assms(2) by (cases ?fy) auto
  have "path_join (normalize ?P # ys) = normalize (js_join ''/'' (normalize ?P # ?fy))"
    using normalize_nonempty[of ?P] by (simp add: path_join_def)
  then have "path_join (path_join xs # ys) = normalize (js_join ''/'' (normalize ?P # ?fy))"
    by (simp only: px)
  also have "\<dots> = normalize (normalize ?P @ CHR ''/'' # ?Y)" by (simp add: fy)
  also have "\<dots> = normalize (?P @ CHR ''/'' # ?Y)" using normalize_append[OF P] .
  also have "\<dots> = normalize (js_join ''/'' (?fx @ ?fy))"
    using js_join_append[OF assms, of "''/''"] by simp
  also have "\<dots> = path_join (xs @ ys)" using assms by (simp add: path_join_def)
  finally show ?thesis .
qed

subsection \<open>The target path\<close>

lemma plain_filename: "plain_segment (slugify t @ ''.mdx'')"
proof -
  have "CHR ''/'' \<notin> set (slugify t)"
    using slugify_chars[of t] by (auto simp: is_slug_char_def)
  moreover have "slugify t @ ''.mdx'' \<noteq> ''.''" "slugify t @ ''.mdx'' \<noteq> ''..''"
    by (auto simp: append_eq_Cons_conv)
  ultimately show ?thesis by (simp add: plain_segment_def)
qed

lemma filepath_assoc:
  assumes "d \<noteq> []"
  shows "filepath d p = path_join [d, ''..'', ''docs'', ''leetcode-75'', folder p, slugify (title p) @ ''.mdx'']"
    and "filepath d p = path_join [path_join [d, ''..'', ''docs'', ''leetcode-75''], folder p, slugify (title p) @ ''.mdx'']"
proof -
  show 1: "filepath d p = path_join [d, ''..'', ''docs'', ''leetcode-75'', folder p, slugify (title p) @ ''.mdx'']"
    using path_join_assoc[of "[d, ''..'', ''docs'', ''leetcode-75'', folder p]" "[slugify (title p) @ ''.mdx'']"] assms
    by (simp add: filepath_def docsPath_def Let_def)
  show "filepath d p = path_join [path_join [d, ''..'', ''docs'', ''leetcode-75''], folder p, slugify (title p) @ ''.mdx'']"
    using path_join_assoc[of "[d, ''..'', ''docs'', ''leetcode-75'']" "[folder p, slugify (title p) @ ''.mdx'']"] assms 1
    by simp
qed

lemma filepath_plain:
  assumes "ds \<noteq> []" "\<forall>s\<in>set ds. plain_segment s" "plain_segment (folder p)"
  shows "filepath (CHR ''/'' # js_join ''/'' ds) p
         = CHR ''/'' # js_join ''/'' (butlast ds @ [''docs'', ''leetcode-75'', folder p, slugify (title p) @ ''.mdx''])"
proof -
  let ?d = "CHR ''/'' # js_join ''/'' ds"
  let ?n = "slugify (title p) @ ''.mdx''"
  let ?rest = "[''docs'', ''leetcode-75'', folder p, ?n]"
  have f: "folder p \<noteq> []" using assms(3) by (simp add: plain_segment_def)
  have "js_join ''/'' (?d # ''..'' # ?rest) = ?d @ ''/'' @ js_join ''/'' ([''..''] @ ?rest)"
    by simp
  also have "\<dots> = CHR ''/'' # js_join ''/'' (ds @ ''..'' # ?rest)"
    using js_join_append[OF assms(1), of "''..'' # ?rest" "''/''"] by simp
  finally have j: "js_join ''/'' (?d # ''..'' # ?rest) = CHR ''/'' # js_join ''/'' (ds @ ''..'' # ?rest)" .
  have "\<forall>s\<in>set ?rest. plain_segment s"
    using assms(3) plain_filename[of "title p"] by (simp add: plain_segment_def)
  from normalize_plain_up[OF assms(1,2) _ this]
  have "normalize (CHR ''/'' # js_join ''/'' (ds @ ''..'' # ?rest)) = CHR ''/'' # js_join ''/'' (butlast ds @ ?rest)"
    by simp
  with j have "path_join (?d # ''..'' # ?rest) = CHR ''/'' # js_join ''/'' (butlast ds @ ?rest)"
    using f by (simp add: path_join_def)
  then show ?thesis using filepath_assoc(1)[of ?d p] by simp
qed

lemma filepath_same_folder_slug:
  "folder q = folder p \<Longrightarrow> slugify (title q) = slugify (title p) \<Longrightarrow> filepath d q = filepath d p"
  by (simp add: filepath_def docsPath_def)

section \<open>The rendered template\<close>

subsection \<open>The rendered position\<close>

lemma of_char_digit_char: "k < 10 \<Longrightarrow> of_char (digit_char k) = 48 + k"
  by (simp add: digit_char_def)

lemma digits_value_snoc:
  "digits_value (s @ [c]) = 10 * digits_value s + (of_char c - 48)"
  by (simp add: digits_value_def)

lemma digits_value_decimal_digits: "digits_value (decimal_digits n) = n"
proof (induction n rule: decimal_digits.induct)
  case (1 n)
  show ?case
  proof (cases "n < 10")
    case True
    then show ?thesis
      by (subst decimal_digits.simps) (simp add: digits_value_def of_char_digit_char)
  next
    case False
    with 1 show ?thesis
      by (subst decimal_digits.simps) (simp add: digits_value_snoc of_char_digit_char)
  qed
qed

lemma is_digit_digit_char: "k < 10 \<Longrightarrow> is_digit (digit_char k)"
  by (simp add: is_digit_def of_char_digit_char)

lemma decimal_digits_digits: "list_all is_digit (decimal_digits n)"
proof (induction n rule: decimal_digits.induct)
  case (1 n)
  show ?case
  proof (cases "n < 10")
    case True
    then show ?thesis
      by (subst decimal_digits.simps) (simp add: is_digit_digit_char)
  next
    case False
    with 1 show ?thesis
      by (subst decimal_digits.simps) (simp add: is_digit_digit_char)
  qed
qed

lemma decimal_digits_nonempty: "decimal_digits n \<noteq> []"
  by (subst decimal_digits.simps) simp

lemma decimal_digits_zero: "decimal_digits 0 = ''0''"
  by code_simp

lemma decimal_digits_no_leading_zero:
  "hd (decimal_digits n) = CHR ''0'' \<Longrightarrow> n = 0"
proof (induction n rule: decimal_digits.induct)
  case (1 n)
  show ?case
  proof (cases "n < 10")
    case True
    with 1(2) have "digit_char n = CHR ''0''" by (subst (asm) decimal_digits.simps) simp
    then have "(of_char (digit_char n) :: nat) = of_char CHR ''0''" by simp
    with True show ?thesis by (simp add: of_char_digit_char)
  next
    case False
    with 1(2) have "hd (decimal_digits (n div 10)) = CHR ''0''"
      by (subst (asm) decimal_digits.simps) (simp add: decimal_digits_nonempty)
    with 1(1) False have "n div 10 = 0" by simp
    with False show ?thesis by simp
  qed
qed

text \<open>
  The rendered position is the canonical decimal numeral of the position: digits only,
  no leading zero, and its value is the position.
\<close>

lemma number_to_string_canonical:
  "list_all is_digit (number_to_string x)
   \<and> digits_value (number_to_string x) = unat x
   \<and> (if unat x = 0 then number_to_string x = ''0''
       else hd (number_to_string x) \<noteq> CHR ''0'')"
  using decimal_digits_no_leading_zero[of "unat x"]
  by (auto simp: number_to_string_def decimal_digits_digits digits_value_decimal_digits
      decimal_digits_zero)

subsection \<open>The rendered tags\<close>

text \<open>
  The joined tags are the first tag followed by each further tag behind a separator, in
  the order of the list, every element of the list once.
\<close>

lemma js_join_concat:
  "js_join sep xs = (case xs of [] \<Rightarrow> [] | x # r \<Rightarrow> x @ concat (map (\<lambda>y. sep @ y) r))"
  by (induction xs rule: induct_list012) auto

subsection \<open>The head of the document\<close>

lemma template_head:
  "prefix (''---\<newline>''
      @ ''sidebar_position: '' @ number_to_string (position p) @ ''\<newline>''
      @ ''title: \"'' @ title p @ ''\"\<newline>''
      @ ''tags: ['' @ js_join '', '' (map (\<lambda>tag. ''\"'' @ tag @ ''\"'') (tags p)) @ '']\<newline>''
      @ ''---\<newline>''
      @ ''\<newline>''
      @ ''# '' @ title p @ ''\<newline>''
      @ ''\<newline>''
      @ ''> **Difficulty:** '' @ difficulty p @ ''\<newline>'')
     (generateProblemTemplate p)"
  by (simp add: generateProblemTemplate_def Let_def)

text \<open>
  Claim C10. \<open>generateProblemTemplate\<close> is a function of the descriptor alone (it takes no
  file system), and of its position, title, difficulty and tags only: two descriptors that
  agree on these four fields render to the same text, whatever their folders.
\<close>

theorem template_purity:
  assumes "position p = position q" "title p = title q" "difficulty p = difficulty q"
      "tags p = tags q"
  shows "generateProblemTemplate p = generateProblemTemplate q
     \<and> generateProblemTemplate (p\<lparr>folder := f\<rparr>) = generateProblemTemplate p"
  using assms by (simp add: generateProblemTemplate_def)

theorem template_purity_witness:
  "position (removing_stars\<lparr>folder := ''queue''\<rparr>) = position removing_stars
   \<and> folder (removing_stars\<lparr>folder := ''queue''\<rparr>) \<noteq> folder removing_stars
   \<and> generateProblemTemplate (removing_stars\<lparr>folder := ''queue''\<rparr>)
     = generateProblemTemplate removing_stars"
proof -
  let ?q = "removing_stars\<lparr>folder := ''queue''\<rparr>"
  have h: "position removing_stars = position ?q" "title removing_stars = title ?q"
    "difficulty removing_stars = difficulty ?q" "tags removing_stars = tags ?q"
    by simp_all
  have "folder ?q \<noteq> folder removing_stars" by (simp add: removing_stars_def)
  moreover have "position ?q = position removing_stars" by simp
  moreover have "generateProblemTemplate ?q = generateProblemTemplate removing_stars"
    using template_purity[OF h, of "''queue''", THEN conjunct1] by (rule sym)
  ultimately show ?thesis by blast
qed

section \<open>One descriptor\<close>

lemma process_problem_exists:
  "existsSync (disk st) (filepath d p) \<Longrightarrow>
   process_problem d p st = Inr (st\<lparr>stdout := stdout st @ [Skipping (filepath d p)]\<rparr>)"
  by (simp add: process_problem_def)

lemma process_problem_create:
  "\<not> existsSync (disk st) (filepath d p) \<Longrightarrow> writable (disk st) (filepath d p) \<Longrightarrow>
   process_problem d p st =
     Inr \<lparr>disk = (disk st)\<lparr>entries := (entries (disk st))(filepath d p \<mapsto> File (generateProblemTemplate p))\<rparr>,
          stdout = stdout st @ [Created (filepath d p)]\<rparr>"
  by (simp add: process_problem_def writeFileSync_def existsSync_def)

lemma process_problem_fail:
  "\<not> existsSync (disk st) (filepath d p) \<Longrightarrow> \<not> writable (disk st) (filepath d p) \<Longrightarrow>
   process_problem d p st = Inl (WriteFailed (filepath d p))"
  by (simp add: process_problem_def writeFileSync_def)

lemma process_problem_cases:
  obtains (skip) "existsSync (disk st) (filepath d p)"
      "process_problem d p st = Inr (st\<lparr>stdout := stdout st @ [Skipping (filepath d p)]\<rparr>)"
  | (create) "\<not> existsSync (disk st) (filepath d p)" "writable (disk st) (filepath d p)"
      "process_problem d p st =
         Inr \<lparr>disk = (disk st)\<lparr>entries := (entries (disk st))(filepath d p \<mapsto> File (generateProblemTemplate p))\<rparr>,
              stdout = stdout st @ [Created (filepath d p)]\<rparr>"
  | (fail) "\<not> existsSync (disk st) (filepath d p)" "\<not> writable (disk st) (filepath d p)"
      "process_problem d p st = Inl (WriteFailed (filepath d p))"
  using process_problem_exists process_problem_create process_problem_fail by blast

section \<open>The loop\<close>

lemma forEach_append:
  "forEach d (xs @ ys) st =
     (case forEach d xs st of (None, st') \<Rightarrow> forEach d ys st' | (Some e, st') \<Rightarrow> (Some e, st'))"
  by (induction xs arbitrary: st) (auto split: sum.splits)

lemma forEach_all_exist:
  "\<forall>p\<in>set ps. existsSync (disk st) (filepath d p) \<Longrightarrow>
   forEach d ps st = (None, st\<lparr>stdout := stdout st @ map (\<lambda>p. Skipping (filepath d p)) ps\<rparr>)"
  by (induction ps arbitrary: st) (auto simp: process_problem_exists)

lemma forEach_abort_decomp:
  "forEach d ps st = (Some e, st') \<Longrightarrow>
   \<exists>k < length ps. forEach d (take k ps) st = (None, st')
      \<and> \<not> existsSync (disk st') (filepath d (ps ! k))
      \<and> \<not> writable (disk st') (filepath d (ps ! k))
      \<and> e = WriteFailed (filepath d (ps ! k))"
proof (induction ps arbitrary: st)
  case Nil
  then show ?case by simp
next
  case (Cons p ps)
  show ?case
  proof (cases rule: process_problem_cases[of st d p])
    case skip
    with Cons.prems have "forEach d ps (st\<lparr>stdout := stdout st @ [Skipping (filepath d p)]\<rparr>) = (Some e, st')"
      by simp
    from Cons.IH[OF this] obtain k where "k < length ps"
      "forEach d (take k ps) (st\<lparr>stdout := stdout st @ [Skipping (filepath d p)]\<rparr>) = (None, st')"
      "\<not> existsSync (disk st') (filepath d (ps ! k))"
      "\<not> writable (disk st') (filepath d (ps ! k))" "e = WriteFailed (filepath d (ps ! k))" by blast
    with skip show ?thesis by (intro exI[of _ "Suc k"]) simp
  next
    case create
    let ?st1 = "\<lparr>disk = (disk st)\<lparr>entries := (entries (disk st))(filepath d p \<mapsto> File (generateProblemTemplate p))\<rparr>,
              stdout = stdout st @ [Created (filepath d p)]\<rparr>"
    from create Cons.prems have "forEach d ps ?st1 = (Some e, st')" by simp
    from Cons.IH[OF this] obtain k where "k < length ps"
      "forEach d (take k ps) ?st1 = (None, st')"
      "\<not> existsSync (disk st') (filepath d (ps ! k))"
      "\<not> writable (disk st') (filepath d (ps ! k))" "e = WriteFailed (filepath d (ps ! k))" by blast
    with create show ?thesis by (intro exI[of _ "Suc k"]) simp
  next
    case fail
    with Cons.prems show ?thesis by (intro exI[of _ 0]) simp
  qed
qed

lemma forEach_completed_disk:
  "forEach d ps st = (None, st') \<Longrightarrow>
   writable (disk st') = writable (disk st) \<and>
   (\<forall>q. entries (disk st') q =
      (case entries (disk st) q of
         Some n \<Rightarrow> Some n
       | None \<Rightarrow> map_option (\<lambda>p. File (generateProblemTemplate p)) (find (\<lambda>p. filepath d p = q) ps)))"
proof (induction ps arbitrary: st)
  case Nil
  then show ?case by (auto split: option.splits)
next
  case (Cons p ps)
  show ?case
  proof (cases rule: process_problem_cases[of st d p])
    case skip
    with Cons.prems have "forEach d ps (st\<lparr>stdout := stdout st @ [Skipping (filepath d p)]\<rparr>) = (None, st')"
      by simp
    from Cons.IH[OF this] skip(1) show ?thesis
      by (auto simp: existsSync_def split: option.splits)
  next
    case create
    let ?st1 = "\<lparr>disk = (disk st)\<lparr>entries := (entries (disk st))(filepath d p \<mapsto> File (generateProblemTemplate p))\<rparr>,
              stdout = stdout st @ [Created (filepath d p)]\<rparr>"
    from create Cons.prems have "forEach d ps ?st1 = (None, st')" by simp
    from Cons.IH[OF this] create(1) show ?thesis
      by (auto simp: existsSync_def split: option.splits)
  next
    case fail
    with Cons.prems show ?thesis by simp
  qed
qed

lemma forEach_completed_exists:
  assumes "forEach d ps st = (None, st')"
  shows "existsSync (disk st') q \<longleftrightarrow> existsSync (disk st) q \<or> q \<in> filepath d ` set ps"
proof -
  have "find (\<lambda>p. filepath d p = q) ps = None \<longleftrightarrow> q \<notin> filepath d ` set ps"
    by (auto simp: find_None_iff)
  then show ?thesis
    using forEach_completed_disk[OF assms] by (auto simp: existsSync_def split: option.splits)
qed

lemma forEach_completed_iff:
  "fst (forEach d ps st) = None \<longleftrightarrow>
   (\<forall>p\<in>set ps. existsSync (disk st) (filepath d p) \<or> writable (disk st) (filepath d p))"
proof (induction ps arbitrary: st)
  case Nil
  then show ?case by simp
next
  case (Cons p ps)
  show ?case
  proof (cases rule: process_problem_cases[of st d p])
    case skip
    then show ?thesis using Cons.IH[of "st\<lparr>stdout := stdout st @ [Skipping (filepath d p)]\<rparr>"]
      by simp
  next
    case create
    let ?st1 = "\<lparr>disk = (disk st)\<lparr>entries := (entries (disk st))(filepath d p \<mapsto> File (generateProblemTemplate p))\<rparr>,
              stdout = stdout st @ [Created (filepath d p)]\<rparr>"
    have "existsSync (disk ?st1) q \<longleftrightarrow> existsSync (disk st) q \<or> q = filepath d p" for q
      by (auto simp: existsSync_def)
    with create show ?thesis using Cons.IH[of ?st1] by auto
  next
    case fail
    then show ?thesis by simp
  qed
qed

lemma forEach_completed_log:
  "forEach d ps st = (None, st') \<Longrightarrow>
   \<exists>os. stdout st' = stdout st @ os \<and> length os = length ps \<and>
   (\<forall>i < length ps. os ! i =
      (if existsSync (disk st) (filepath d (ps ! i)) \<or> (\<exists>j < i. filepath d (ps ! j) = filepath d (ps ! i))
       then Skipping (filepath d (ps ! i)) else Created (filepath d (ps ! i))))"
proof (induction ps arbitrary: st)
  case Nil
  then show ?case by simp
next
  case (Cons p ps)
  let ?fp = "filepath d"
  show ?case
  proof (cases rule: process_problem_cases[of st d p])
    case skip
    let ?st1 = "st\<lparr>stdout := stdout st @ [Skipping (?fp p)]\<rparr>"
    from skip Cons.prems have "forEach d ps ?st1 = (None, st')" by simp
    from Cons.IH[OF this] obtain os where os: "stdout st' = stdout ?st1 @ os" "length os = length ps"
      "\<forall>i < length ps. os ! i =
        (if existsSync (disk ?st1) (?fp (ps ! i)) \<or> (\<exists>j < i. ?fp (ps ! j) = ?fp (ps ! i))
         then Skipping (?fp (ps ! i)) else Created (?fp (ps ! i)))" by blast
    have "\<forall>i < length (p # ps). (Skipping (?fp p) # os) ! i =
        (if existsSync (disk st) (?fp ((p # ps) ! i)) \<or> (\<exists>j < i. ?fp ((p # ps) ! j) = ?fp ((p # ps) ! i))
         then Skipping (?fp ((p # ps) ! i)) else Created (?fp ((p # ps) ! i)))"
    proof (intro allI impI)
      fix i assume i: "i < length (p # ps)"
      show "(Skipping (?fp p) # os) ! i =
        (if existsSync (disk st) (?fp ((p # ps) ! i)) \<or> (\<exists>j < i. ?fp ((p # ps) ! j) = ?fp ((p # ps) ! i))
         then Skipping (?fp ((p # ps) ! i)) else Created (?fp ((p # ps) ! i)))"
      proof (cases i)
        case 0
        with skip show ?thesis by simp
      next
        case (Suc i')
        with i have i': "i' < length ps" by simp
        have "(\<exists>j < Suc i'. ?fp ((p # ps) ! j) = ?fp (ps ! i')) \<longleftrightarrow>
              (?fp p = ?fp (ps ! i') \<or> (\<exists>j < i'. ?fp (ps ! j) = ?fp (ps ! i')))"
          by (auto simp: less_Suc_eq_0_disj)
        with os(3) i' Suc skip(1) show ?thesis by auto
      qed
    qed
    with os(1,2) show ?thesis by (intro exI[of _ "Skipping (?fp p) # os"]) simp
  next
    case create
    let ?st1 = "\<lparr>disk = (disk st)\<lparr>entries := (entries (disk st))(?fp p \<mapsto> File (generateProblemTemplate p))\<rparr>,
              stdout = stdout st @ [Created (?fp p)]\<rparr>"
    from create Cons.prems have "forEach d ps ?st1 = (None, st')" by simp
    from Cons.IH[OF this] obtain os where os: "stdout st' = stdout ?st1 @ os" "length os = length ps"
      "\<forall>i < length ps. os ! i =
        (if existsSync (disk ?st1) (?fp (ps ! i)) \<or> (\<exists>j < i. ?fp (ps ! j) = ?fp (ps ! i))
         then Skipping (?fp (ps ! i)) else Created (?fp (ps ! i)))" by blast
    have ex1: "existsSync (disk ?st1) q \<longleftrightarrow> existsSync (disk st) q \<or> q = ?fp p" for q
      by (auto simp: existsSync_def)
    have "\<forall>i < length (p # ps). (Created (?fp p) # os) ! i =
        (if existsSync (disk st) (?fp ((p # ps) ! i)) \<or> (\<exists>j < i. ?fp ((p # ps) ! j) = ?fp ((p # ps) ! i))
         then Skipping (?fp ((p # ps) ! i)) else Created (?fp ((p # ps) ! i)))"
    proof (intro allI impI)
      fix i assume i: "i < length (p # ps)"
      show "(Created (?fp p) # os) ! i =
        (if existsSync (disk st) (?fp ((p # ps) ! i)) \<or> (\<exists>j < i. ?fp ((p # ps) ! j) = ?fp ((p # ps) ! i))
         then Skipping (?fp ((p # ps) ! i)) else Created (?fp ((p # ps) ! i)))"
      proof (cases i)
        case 0
        with create show ?thesis by simp
      next
        case (Suc i')
        with i have i': "i' < length ps" by simp
        have "(\<exists>j < Suc i'. ?fp ((p # ps) ! j) = ?fp (ps ! i')) \<longleftrightarrow>
              (?fp p = ?fp (ps ! i') \<or> (\<exists>j < i'. ?fp (ps ! j) = ?fp (ps ! i')))"
          by (auto simp: less_Suc_eq_0_disj)
        with os(3) i' Suc ex1 show ?thesis by auto
      qed
    qed
    with os(1,2) show ?thesis by (intro exI[of _ "Created (?fp p) # os"]) simp
  next
    case fail
    with Cons.prems show ?thesis by simp
  qed
qed

lemma forEach_log_prefix:
  assumes "forEach d ps st = (r, st')"
  shows "\<exists>k \<le> length ps. (r = None \<longleftrightarrow> k = length ps) \<and>
     stdout st' = stdout st @ map (\<lambda>i.
        if existsSync (disk st) (filepath d (ps ! i)) \<or> (\<exists>j < i. filepath d (ps ! j) = filepath d (ps ! i))
        then Skipping (filepath d (ps ! i)) else Created (filepath d (ps ! i))) [0..<k]"
proof -
  let ?line = "\<lambda>ps i.
        if existsSync (disk st) (filepath d (ps ! i)) \<or> (\<exists>j < i. filepath d (ps ! j) = filepath d (ps ! i))
        then Skipping (filepath d (ps ! i)) else Created (filepath d (ps ! i))"
  have fin: "stdout st'' = stdout st @ map (?line qs) [0..<length qs]"
    if "forEach d qs st = (None, st'')" for qs st''
  proof -
    from forEach_completed_log[OF that] obtain os where os: "stdout st'' = stdout st @ os"
      "length os = length qs" "\<forall>i < length qs. os ! i = ?line qs i" by blast
    then have "os = map (?line qs) [0..<length qs]"
      by (intro nth_equalityI) simp_all
    with os(1) show ?thesis by simp
  qed
  show ?thesis
  proof (cases r)
    case None
    with assms fin[of ps st'] show ?thesis by (intro exI[of _ "length ps"]) simp
  next
    case (Some e)
    with assms obtain k where k: "k < length ps" "forEach d (take k ps) st = (None, st')"
      using forEach_abort_decomp by blast
    have "map (?line (take k ps)) [0..<length (take k ps)] = map (?line ps) [0..<k]"
      using k(1) by (intro nth_equalityI) auto
    with fin[OF k(2)] Some k(1) show ?thesis by (intro exI[of _ k]) simp
  qed
qed

lemma forEach_rerun:
  assumes "forEach d ps st = (r, st1)" "disk st2 = disk st1"
  shows "fst (forEach d ps st2) = r \<and> disk (snd (forEach d ps st2)) = disk st1"
proof (cases r)
  case None
  with assms(1) have "\<forall>p\<in>set ps. existsSync (disk st1) (filepath d p)"
    using forEach_completed_exists by blast
  with assms(2) have "\<forall>p\<in>set ps. existsSync (disk st2) (filepath d p)" by simp
  from forEach_all_exist[OF this] None assms(2) show ?thesis by simp
next
  case (Some e)
  with assms(1) obtain k where k: "k < length ps" "forEach d (take k ps) st = (None, st1)"
      "\<not> existsSync (disk st1) (filepath d (ps ! k))"
      "\<not> writable (disk st1) (filepath d (ps ! k))" "e = WriteFailed (filepath d (ps ! k))"
    using forEach_abort_decomp by blast
  let ?st3 = "st2\<lparr>stdout := stdout st2 @ map (\<lambda>p. Skipping (filepath d p)) (take k ps)\<rparr>"
  have "\<forall>p\<in>set (take k ps). existsSync (disk st2) (filepath d p)"
    using forEach_completed_exists[OF k(2)] assms(2) by simp
  from forEach_all_exist[OF this] have a: "forEach d (take k ps) st2 = (None, ?st3)" .
  have ps: "ps = take k ps @ ps ! k # drop (Suc k) ps"
    using k(1) by (simp add: id_take_nth_drop)
  have "process_problem d (ps ! k) ?st3 = Inl (WriteFailed (filepath d (ps ! k)))"
    using k(3,4) assms(2) by (intro process_problem_fail) simp_all
  then have "forEach d (take k ps @ ps ! k # drop (Suc k) ps) st2 = (Some e, ?st3)"
    using a k(5) by (simp add: forEach_append)
  with ps have "forEach d ps st2 = (Some e, ?st3)" by simp
  with Some assms(2) show ?thesis by simp
qed

lemma forEach_frame:
  "entries (disk st) x = Some n \<Longrightarrow> entries (disk (snd (forEach d ps st))) x = Some n"
proof (induction ps arbitrary: st)
  case Nil
  then show ?case by simp
next
  case (Cons p ps)
  show ?case
  proof (cases rule: process_problem_cases[of st d p])
    case skip
    with Cons show ?thesis by simp
  next
    case create
    with Cons.prems have "filepath d p \<noteq> x" by (auto simp: existsSync_def)
    with create Cons.prems show ?thesis
      by (simp add: Cons.IH)
  next
    case fail
    with Cons.prems show ?thesis by simp
  qed
qed

lemma forEach_exists_mono:
  "existsSync (disk st) x \<Longrightarrow> existsSync (disk (snd (forEach d ps st))) x"
  using forEach_frame[of st x _ d ps] by (auto simp: existsSync_def)

lemma forEach_put_entry:
  assumes "existsSync (disk st) x"
  shows "forEach d ps (put_entry x n st) =
         (fst (forEach d ps st), put_entry x n (snd (forEach d ps st)))"
  using assms
proof (induction ps arbitrary: st)
  case Nil
  then show ?case by simp
next
  case (Cons p ps)
  have ex: "existsSync (disk (put_entry x n st)) q \<longleftrightarrow> existsSync (disk st) q" for q
    using Cons.prems by (auto simp: existsSync_def put_entry_def)
  have wr: "writable (disk (put_entry x n st)) = writable (disk st)"
    by (simp add: put_entry_def)
  show ?case
  proof (cases rule: process_problem_cases[of st d p])
    case skip
    let ?st1 = "st\<lparr>stdout := stdout st @ [Skipping (filepath d p)]\<rparr>"
    have "process_problem d p (put_entry x n st)
          = Inr ((put_entry x n st)\<lparr>stdout := stdout (put_entry x n st) @ [Skipping (filepath d p)]\<rparr>)"
      using skip(1) ex by (intro process_problem_exists) simp
    also have "(put_entry x n st)\<lparr>stdout := stdout (put_entry x n st) @ [Skipping (filepath d p)]\<rparr>
          = put_entry x n ?st1"
      by (simp add: put_entry_def)
    finally have a: "forEach d (p # ps) (put_entry x n st) = forEach d ps (put_entry x n ?st1)"
      by simp
    have b: "forEach d (p # ps) st = forEach d ps ?st1" using skip(2) by simp
    have "existsSync (disk ?st1) x" using Cons.prems by simp
    from Cons.IH[OF this] show ?thesis unfolding a b .
  next
    case create
    let ?st1 = "\<lparr>disk = (disk st)\<lparr>entries := (entries (disk st))(filepath d p \<mapsto> File (generateProblemTemplate p))\<rparr>,
              stdout = stdout st @ [Created (filepath d p)]\<rparr>"
    have ne: "filepath d p \<noteq> x" using create(1) Cons.prems by auto
    have "process_problem d p (put_entry x n st)
          = Inr \<lparr>disk = (disk (put_entry x n st))\<lparr>entries := (entries (disk (put_entry x n st)))
                     (filepath d p \<mapsto> File (generateProblemTemplate p))\<rparr>,
                 stdout = stdout (put_entry x n st) @ [Created (filepath d p)]\<rparr>"
      using create(1,2) ex wr by (intro process_problem_create) simp_all
    also have "\<lparr>disk = (disk (put_entry x n st))\<lparr>entries := (entries (disk (put_entry x n st)))
                     (filepath d p \<mapsto> File (generateProblemTemplate p))\<rparr>,
                 stdout = stdout (put_entry x n st) @ [Created (filepath d p)]\<rparr>
          = put_entry x n ?st1"
      using ne by (simp add: put_entry_def fun_upd_twist)
    finally have a: "forEach d (p # ps) (put_entry x n st) = forEach d ps (put_entry x n ?st1)"
      by simp
    have b: "forEach d (p # ps) st = forEach d ps ?st1" using create(3) by simp
    have "existsSync (disk ?st1) x" using Cons.prems by (simp add: existsSync_def)
    from Cons.IH[OF this] show ?thesis unfolding a b .
  next
    case fail
    have "process_problem d p (put_entry x n st) = Inl (WriteFailed (filepath d p))"
      using fail(1,2) ex wr by (intro process_problem_fail) simp_all
    with fail(3) show ?thesis by simp
  qed
qed

lemma find_first:
  "\<forall>x\<in>set xs. \<not> P x \<Longrightarrow> P y \<Longrightarrow> find P (xs @ y # ys) = Some y"
  by (induction xs) auto

section \<open>The script\<close>

lemma run_script_fst: "fst (run_script d ps fs0) = fst (forEach d ps \<lparr>disk = fs0, stdout = []\<rparr>)"
  by (simp add: run_script_def split: prod.splits option.splits)

lemma run_script_disk:
  "disk (snd (run_script d ps fs0)) = disk (snd (forEach d ps \<lparr>disk = fs0, stdout = []\<rparr>))"
  by (simp add: run_script_def split: prod.splits option.splits)

lemma run_script_stdout:
  "stdout (snd (run_script d ps fs0)) =
     stdout (snd (forEach d ps \<lparr>disk = fs0, stdout = []\<rparr>))
     @ (if fst (forEach d ps \<lparr>disk = fs0, stdout = []\<rparr>) = None then [AllGenerated] else [])"
  by (simp add: run_script_def split: prod.splits option.splits)

lemma run_script_single:
  "run_script d [p] fs0 =
     (if existsSync fs0 (filepath d p)
      then (None, \<lparr>disk = fs0, stdout = [Skipping (filepath d p), AllGenerated]\<rparr>)
      else if writable fs0 (filepath d p)
      then (None, \<lparr>disk = fs0\<lparr>entries := (entries fs0)
                              (filepath d p \<mapsto> File (generateProblemTemplate p))\<rparr>,
                   stdout = [Created (filepath d p), AllGenerated]\<rparr>)
      else (Some (WriteFailed (filepath d p)), \<lparr>disk = fs0, stdout = []\<rparr>))"
proof (cases rule: process_problem_cases[of "\<lparr>disk = fs0, stdout = []\<rparr>" d p])
  case skip
  then show ?thesis by (simp add: run_script_def)
next
  case create
  then show ?thesis by (simp add: run_script_def)
next
  case fail
  then show ?thesis by (simp add: run_script_def)
qed

lemma run_script_completes:
  "\<forall>p\<in>set ps. existsSync fs0 (filepath d p) \<or> writable fs0 (filepath d p) \<Longrightarrow>
   fst (run_script d ps fs0) = None"
  by (simp add: run_script_fst forEach_completed_iff)

subsection \<open>Concrete slugs and paths\<close>

lemma slug_removing_stars:
  "slugify (title removing_stars) = ''removing-stars-from-a-string''"
  by code_simp

lemma slug_removing_stars_again:
  "slugify (title removing_stars_again) = ''removing-stars-from-a-string''"
  by code_simp

lemma fp_removing_stars:
  "filepath ''/repo/scripts'' removing_stars
     = ''/repo/docs/leetcode-75/stack/removing-stars-from-a-string.mdx''"
  by code_simp

lemma fp_removing_stars_again:
  "filepath ''/repo/scripts'' removing_stars_again
     = ''/repo/docs/leetcode-75/stack/removing-stars-from-a-string.mdx''"
  using filepath_same_folder_slug[of removing_stars_again removing_stars "''/repo/scripts''"]
    slug_removing_stars slug_removing_stars_again fp_removing_stars
  by (simp add: removing_stars_def removing_stars_again_def)

lemma fp_untitled:
  "filepath ''/repo/scripts'' untitled = ''/repo/docs/leetcode-75/stack/.mdx''"
  by code_simp

section \<open>The claims about a run\<close>

text \<open>
  Claim C1. A file that exists at the target path of a descriptor keeps its bytes through
  the whole run, whether the run completes or is aborted. Whenever the run reaches the
  descriptor (it always does when the run completes) the line printed for it is the
  skipped line with that path. The content of the file is never looked at: with any other
  content in its place the run ends the same way, prints the same lines and leaves the same
  file system, but for that content.
\<close>

theorem existing_file_untouched:
  assumes "i < length ps" "entries fs0 (filepath d (ps ! i)) = Some (File c)"
  shows "entries (disk (snd (run_script d ps fs0))) (filepath d (ps ! i)) = Some (File c)
     \<and> (fst (run_script d ps fs0) = None \<longrightarrow> i < length (stdout (snd (run_script d ps fs0))))
     \<and> (i < length (stdout (snd (run_script d ps fs0))) \<longrightarrow>
          stdout (snd (run_script d ps fs0)) ! i = Skipping (filepath d (ps ! i)))
     \<and> run_script d ps (fs0\<lparr>entries := (entries fs0)(filepath d (ps ! i) \<mapsto> File c')\<rparr>)
         = (fst (run_script d ps fs0),
            (snd (run_script d ps fs0))\<lparr>disk := (disk (snd (run_script d ps fs0)))
               \<lparr>entries := (entries (disk (snd (run_script d ps fs0))))
                   (filepath d (ps ! i) \<mapsto> File c')\<rparr>\<rparr>)"
proof -
  let ?st0 = "\<lparr>disk = fs0, stdout = []\<rparr>"
  let ?x = "filepath d (ps ! i)"
  let ?R = "run_script d ps fs0"
  obtain r st' where run: "forEach d ps ?st0 = (r, st')" by (cases "forEach d ps ?st0")
  have ex: "existsSync (disk ?st0) ?x" using assms(2) by (simp add: existsSync_def)
  have 1: "entries (disk (snd ?R)) ?x = Some (File c)"
    using forEach_frame[of ?st0 ?x "File c" d ps] assms(2) by (simp add: run_script_disk)
  from forEach_log_prefix[OF run] obtain k where k: "k \<le> length ps" "r = None \<longleftrightarrow> k = length ps"
    "stdout st' = map (\<lambda>i.
        if existsSync fs0 (filepath d (ps ! i)) \<or> (\<exists>j < i. filepath d (ps ! j) = filepath d (ps ! i))
        then Skipping (filepath d (ps ! i)) else Created (filepath d (ps ! i))) [0..<k]"
    by auto
  have len: "length (stdout (snd ?R)) = k + (if r = None then 1 else 0)"
    using run k(3) by (simp add: run_script_stdout)
  have 2: "fst ?R = None \<longrightarrow> i < length (stdout (snd ?R))"
    using len k(2) assms(1) run by (simp add: run_script_fst)
  have 3: "stdout (snd ?R) ! i = Skipping ?x" if "i < length (stdout (snd ?R))"
  proof -
    have "i < k" using that len k assms(1) by (cases r) auto
    then show ?thesis using run k(3) ex by (simp add: run_script_stdout nth_append)
  qed
  have 4: "run_script d ps (fs0\<lparr>entries := (entries fs0)(?x \<mapsto> File c')\<rparr>)
         = (fst ?R, (snd ?R)\<lparr>disk := (disk (snd ?R))\<lparr>entries := (entries (disk (snd ?R)))(?x \<mapsto> File c')\<rparr>\<rparr>)"
    using forEach_put_entry[OF ex, of d ps "File c'"] run
    by (cases r) (simp_all add: run_script_def put_entry_def)
  from 1 2 3 4 show ?thesis by blast
qed

theorem existing_file_untouched_witness:
  "entries edited_disk ''/repo/docs/leetcode-75/stack/removing-stars-from-a-string.mdx''
     = Some (File ''my solution'')
   \<and> entries (disk (snd (run_script ''/repo/scripts'' [removing_stars, untitled] edited_disk)))
        ''/repo/docs/leetcode-75/stack/removing-stars-from-a-string.mdx''
     = Some (File ''my solution'')
   \<and> stdout (snd (run_script ''/repo/scripts'' [removing_stars, untitled] edited_disk)) ! 0
     = Skipping ''/repo/docs/leetcode-75/stack/removing-stars-from-a-string.mdx''
   \<and> fst (run_script ''/repo/scripts'' [removing_stars, untitled]
          (edited_disk\<lparr>entries := (entries edited_disk)
             (''/repo/docs/leetcode-75/stack/removing-stars-from-a-string.mdx'' \<mapsto> File ''other'')\<rparr>))
     = fst (run_script ''/repo/scripts'' [removing_stars, untitled] edited_disk)"
proof -
  let ?ps = "[removing_stars, untitled]"
  have i: "0 < length ?ps" by simp
  have h: "entries edited_disk (filepath ''/repo/scripts'' (?ps ! 0)) = Some (File ''my solution'')"
    by (simp add: fp_removing_stars edited_disk_def)
  have ok: "fst (run_script ''/repo/scripts'' ?ps edited_disk) = None"
    by (simp add: run_script_completes edited_disk_def)
  note t = existing_file_untouched[OF i h, of "''other''"]
  from h have 0: "entries edited_disk ''/repo/docs/leetcode-75/stack/removing-stars-from-a-string.mdx''
     = Some (File ''my solution'')" by (simp add: fp_removing_stars)
  from t[THEN conjunct1] have 1: "entries (disk (snd (run_script ''/repo/scripts'' ?ps edited_disk)))
        ''/repo/docs/leetcode-75/stack/removing-stars-from-a-string.mdx''
     = Some (File ''my solution'')" by (simp add: fp_removing_stars)
  from t[THEN conjunct2, THEN conjunct1] ok
  have "0 < length (stdout (snd (run_script ''/repo/scripts'' ?ps edited_disk)))" by blast
  with t[THEN conjunct2, THEN conjunct2, THEN conjunct1]
  have 2: "stdout (snd (run_script ''/repo/scripts'' ?ps edited_disk)) ! 0
     = Skipping ''/repo/docs/leetcode-75/stack/removing-stars-from-a-string.mdx''"
    by (simp add: fp_removing_stars)
  from t[THEN conjunct2, THEN conjunct2, THEN conjunct2]
  have 3: "fst (run_script ''/repo/scripts'' ?ps
          (edited_disk\<lparr>entries := (entries edited_disk)
             (''/repo/docs/leetcode-75/stack/removing-stars-from-a-string.mdx'' \<mapsto> File ''other'')\<rparr>))
     = fst (run_script ''/repo/scripts'' ?ps edited_disk)"
    by (simp add: fp_removing_stars)
  from 0 1 2 3 show ?thesis by blast
qed

text \<open>
  Claim C2. Running the script a second time on the file system the first run left changes
  nothing on disk and ends as the first run did; after a first run that completed, the
  second run prints the skipped line for every descriptor, in order, and then the summary
  line.
\<close>

theorem run_script_idempotent:
  "disk (snd (run_script d ps (disk (snd (run_script d ps fs0))))) = disk (snd (run_script d ps fs0))
   \<and> fst (run_script d ps (disk (snd (run_script d ps fs0)))) = fst (run_script d ps fs0)
   \<and> (fst (run_script d ps fs0) = None \<longrightarrow>
        stdout (snd (run_script d ps (disk (snd (run_script d ps fs0)))))
          = map (\<lambda>p. Skipping (filepath d p)) ps @ [AllGenerated])"
proof -
  let ?st0 = "\<lparr>disk = fs0, stdout = []\<rparr>"
  obtain r st1 where run1: "forEach d ps ?st0 = (r, st1)" by (cases "forEach d ps ?st0")
  let ?st0' = "\<lparr>disk = disk st1, stdout = []\<rparr>"
  have re: "fst (forEach d ps ?st0') = r \<and> disk (snd (forEach d ps ?st0')) = disk st1"
    using forEach_rerun[OF run1, of ?st0'] by simp
  have log: "stdout (snd (forEach d ps ?st0')) = map (\<lambda>p. Skipping (filepath d p)) ps" if "r = None"
  proof -
    from that run1 have "\<forall>p\<in>set ps. existsSync (disk ?st0') (filepath d p)"
      using forEach_completed_exists[of d ps ?st0 st1] by simp
    from forEach_all_exist[OF this] show ?thesis by simp
  qed
  show ?thesis
    using run1 re log by (simp add: run_script_fst run_script_disk run_script_stdout)
qed

theorem run_script_idempotent_witness:
  "fst (run_script ''/repo/scripts'' [removing_stars, untitled] empty_disk) = None
   \<and> disk (snd (run_script ''/repo/scripts'' [removing_stars, untitled]
              (disk (snd (run_script ''/repo/scripts'' [removing_stars, untitled] empty_disk)))))
     = disk (snd (run_script ''/repo/scripts'' [removing_stars, untitled] empty_disk))
   \<and> stdout (snd (run_script ''/repo/scripts'' [removing_stars, untitled]
              (disk (snd (run_script ''/repo/scripts'' [removing_stars, untitled] empty_disk)))))
     = [Skipping ''/repo/docs/leetcode-75/stack/removing-stars-from-a-string.mdx'',
        Skipping ''/repo/docs/leetcode-75/stack/.mdx'', AllGenerated]"
proof -
  have ok: "fst (run_script ''/repo/scripts'' [removing_stars, untitled] empty_disk) = None"
    by (simp add: run_script_completes empty_disk_def)
  note t = run_script_idempotent[of "''/repo/scripts''" "[removing_stars, untitled]" empty_disk]
  from t[THEN conjunct2, THEN conjunct2] ok
  have "stdout (snd (run_script ''/repo/scripts'' [removing_stars, untitled]
              (disk (snd (run_script ''/repo/scripts'' [removing_stars, untitled] empty_disk)))))
     = [Skipping ''/repo/docs/leetcode-75/stack/removing-stars-from-a-string.mdx'',
        Skipping ''/repo/docs/leetcode-75/stack/.mdx'', AllGenerated]"
    by (simp add: fp_removing_stars fp_untitled)
  with ok t[THEN conjunct1] show ?thesis by blast
qed

text \<open>
  Claim C4. For a descriptor whose target path does not exist, and can be written, the
  callback creates exactly one file, at the target path, and changes nothing else; it
  prints the created line. The file holds the rendered template, which starts with the
  front matter carrying the position as \<open>sidebar_position\<close>, the title and the tags, and
  continues with the title heading and the difficulty line. The position stands there as
  its canonical decimal numeral (digits only, no leading zero, with the position as its
  value); the tags stand there each in double quotes, separated by a comma and a space, in
  the order of the descriptor's list and with its repetitions.
\<close>

theorem one_output_per_new_descriptor:
  assumes "\<not> existsSync (disk st) (filepath d p)" "writable (disk st) (filepath d p)"
  shows "\<exists>st'. process_problem d p st = Inr st'
      \<and> entries (disk st') (filepath d p) = Some (File (generateProblemTemplate p))
      \<and> {path. entries (disk st') path \<noteq> entries (disk st) path} = {filepath d p}
      \<and> stdout st' = stdout st @ [Created (filepath d p)]
      \<and> prefix (''---\<newline>''
            @ ''sidebar_position: '' @ number_to_string (position p) @ ''\<newline>''
            @ ''title: \"'' @ title p @ ''\"\<newline>''
            @ ''tags: ['' @ js_join '', '' (map (\<lambda>tag. ''\"'' @ tag @ ''\"'') (tags p)) @ '']\<newline>''
            @ ''---\<newline>''
            @ ''\<newline>''
            @ ''# '' @ title p @ ''\<newline>''
            @ ''\<newline>''
            @ ''> **Difficulty:** '' @ difficulty p @ ''\<newline>'')
          (generateProblemTemplate p)
      \<and> list_all is_digit (number_to_string (position p))
      \<and> digits_value (number_to_string (position p)) = unat (position p)
      \<and> (if unat (position p) = 0 then number_to_string (position p) = ''0''
          else hd (number_to_string (position p)) \<noteq> CHR ''0'')
      \<and> js_join '', '' (map (\<lambda>tag. ''\"'' @ tag @ ''\"'') (tags p))
          = (case tags p of
               [] \<Rightarrow> []
             | t # ts \<Rightarrow> ''\"'' @ t @ ''\"'' @ concat (map (\<lambda>u. '', '' @ ''\"'' @ u @ ''\"'') ts))"
proof -
  have "entries (disk st) (filepath d p) = None" using assms(1) by (simp add: existsSync_def)
  then have one: "{path. ((entries (disk st))(filepath d p \<mapsto> File (generateProblemTemplate p))) path
                \<noteq> entries (disk st) path} = {filepath d p}"
    by auto
  have tg: "js_join '', '' (map (\<lambda>tag. ''\"'' @ tag @ ''\"'') (tags p))
          = (case tags p of
               [] \<Rightarrow> []
             | t # ts \<Rightarrow> ''\"'' @ t @ ''\"'' @ concat (map (\<lambda>u. '', '' @ ''\"'' @ u @ ''\"'') ts))"
    by (cases "tags p") (simp_all add: js_join_concat comp_def)
  note num = number_to_string_canonical[of "position p"]
  have st: "\<exists>st'. process_problem d p st = Inr st'
      \<and> entries (disk st') (filepath d p) = Some (File (generateProblemTemplate p))
      \<and> {path. entries (disk st') path \<noteq> entries (disk st) path} = {filepath d p}
      \<and> stdout st' = stdout st @ [Created (filepath d p)]"
    using process_problem_create[OF assms] one by simp
  from st template_head[of p] num tg show ?thesis by blast
qed

theorem one_output_per_new_descriptor_witness:
  "\<not> existsSync empty_disk ''/repo/docs/leetcode-75/stack/removing-stars-from-a-string.mdx''
   \<and> writable empty_disk ''/repo/docs/leetcode-75/stack/removing-stars-from-a-string.mdx''
   \<and> (\<exists>st'. process_problem ''/repo/scripts'' removing_stars_again
                 \<lparr>disk = empty_disk, stdout = []\<rparr> = Inr st'
         \<and> entries (disk st') ''/repo/docs/leetcode-75/stack/removing-stars-from-a-string.mdx''
             = Some (File (generateProblemTemplate removing_stars_again))
         \<and> stdout st' = [Created ''/repo/docs/leetcode-75/stack/removing-stars-from-a-string.mdx''])
   \<and> prefix (''---\<newline>''
         @ ''sidebar_position: 4\<newline>''
         @ ''title: \"removing stars: from a STRING\"\<newline>''
         @ ''tags: [\"Stack\", \"String\", \"Stack\"]\<newline>''
         @ ''---\<newline>''
         @ ''\<newline>''
         @ ''# removing stars: from a STRING\<newline>''
         @ ''\<newline>''
         @ ''> **Difficulty:** Hard\<newline>'')
       (generateProblemTemplate removing_stars_again)
   \<and> unat (position removing_stars_again) = 4
   \<and> digits_value (number_to_string (position removing_stars_again)) = 4"
proof -
  let ?sa = "\<lparr>disk = empty_disk, stdout = []\<rparr>"
  let ?p = removing_stars_again
  note fp = fp_removing_stars_again
  have h1: "\<not> existsSync (disk ?sa) (filepath ''/repo/scripts'' ?p)"
    by (simp add: existsSync_def empty_disk_def)
  have h2: "writable (disk ?sa) (filepath ''/repo/scripts'' ?p)"
    by (simp add: empty_disk_def)
  have n: "number_to_string (position ?p) = ''4''" by code_simp
  have u: "unat (position ?p) = 4" by (simp add: removing_stars_again_def)
  from one_output_per_new_descriptor[OF h1 h2] obtain st' where st':
    "process_problem ''/repo/scripts'' ?p ?sa = Inr st'"
    "entries (disk st') (filepath ''/repo/scripts'' ?p) = Some (File (generateProblemTemplate ?p))"
    "stdout st' = stdout ?sa @ [Created (filepath ''/repo/scripts'' ?p)]"
    "prefix (''---\<newline>''
            @ ''sidebar_position: '' @ number_to_string (position ?p) @ ''\<newline>''
            @ ''title: \"'' @ title ?p @ ''\"\<newline>''
            @ ''tags: ['' @ js_join '', '' (map (\<lambda>tag. ''\"'' @ tag @ ''\"'') (tags ?p)) @ '']\<newline>''
            @ ''---\<newline>''
            @ ''\<newline>''
            @ ''# '' @ title ?p @ ''\<newline>''
            @ ''\<newline>''
            @ ''> **Difficulty:** '' @ difficulty ?p @ ''\<newline>'')
          (generateProblemTemplate ?p)"
    "digits_value (number_to_string (position ?p)) = unat (position ?p)"
    by (elim exE conjE)
  have a: "\<exists>st'. process_problem ''/repo/scripts'' ?p ?sa = Inr st'
         \<and> entries (disk st') ''/repo/docs/leetcode-75/stack/removing-stars-from-a-string.mdx''
             = Some (File (generateProblemTemplate ?p))
         \<and> stdout st' = [Created ''/repo/docs/leetcode-75/stack/removing-stars-from-a-string.mdx'']"
    using st'(1,2,3) by (simp add: fp)
  have b: "title ?p = ''removing stars: from a STRING''" "difficulty ?p = ''Hard''"
    "tags ?p = [''Stack'', ''String'', ''Stack'']"
    by (simp_all add: removing_stars_again_def)
  have c: "prefix (''---\<newline>''
         @ ''sidebar_position: 4\<newline>''
         @ ''title: \"removing stars: from a STRING\"\<newline>''
         @ ''tags: [\"Stack\", \"String\", \"Stack\"]\<newline>''
         @ ''---\<newline>''
         @ ''\<newline>''
         @ ''# removing stars: from a STRING\<newline>''
         @ ''\<newline>''
         @ ''> **Difficulty:** Hard\<newline>'')
       (generateProblemTemplate ?p)"
    using st'(4) unfolding n b by simp
  have e: "digits_value (number_to_string (position ?p)) = 4"
    using st'(5) u by simp
  from h1 h2 a c u e show ?thesis by (simp add: fp)
qed

text \<open>
  Claim C5. A target that already exists is not an error: the callback prints the skipped
  line and the loop goes on with the next descriptor. The first write that fails ends the
  run with the error: the state returned is the state before that write, so no later
  descriptor has been processed, and no line has been printed for the failing descriptor,
  nor the summary line. Every aborted run is of this shape.
\<close>

theorem error_policy:
  "(existsSync (disk st) (filepath d p) \<longrightarrow>
      forEach d (p # rest) st
        = forEach d rest (st\<lparr>stdout := stdout st @ [Skipping (filepath d p)]\<rparr>))
   \<and> (forEach d before \<lparr>disk = fs0, stdout = []\<rparr> = (None, st1)
        \<and> \<not> existsSync (disk st1) (filepath d q) \<and> \<not> writable (disk st1) (filepath d q) \<longrightarrow>
      run_script d (before @ q # after) fs0 = (Some (WriteFailed (filepath d q)), st1))
   \<and> (fst (run_script d ps fs0) = Some e \<longrightarrow>
      (\<exists>k < length ps. e = WriteFailed (filepath d (ps ! k))
         \<and> \<not> existsSync (disk (snd (run_script d ps fs0))) (filepath d (ps ! k))
         \<and> forEach d (take k ps) \<lparr>disk = fs0, stdout = []\<rparr> = (None, snd (run_script d ps fs0))))"
proof (intro conjI impI)
  assume "existsSync (disk st) (filepath d p)"
  then show "forEach d (p # rest) st
        = forEach d rest (st\<lparr>stdout := stdout st @ [Skipping (filepath d p)]\<rparr>)"
    by (simp add: process_problem_exists)
next
  assume a: "forEach d before \<lparr>disk = fs0, stdout = []\<rparr> = (None, st1)
        \<and> \<not> existsSync (disk st1) (filepath d q) \<and> \<not> writable (disk st1) (filepath d q)"
  then have "process_problem d q st1 = Inl (WriteFailed (filepath d q))"
    by (simp add: process_problem_fail)
  with a show "run_script d (before @ q # after) fs0 = (Some (WriteFailed (filepath d q)), st1)"
    by (simp add: run_script_def forEach_append)
next
  assume a: "fst (run_script d ps fs0) = Some e"
  let ?st0 = "\<lparr>disk = fs0, stdout = []\<rparr>"
  obtain r st' where run: "forEach d ps ?st0 = (r, st')" by (cases "forEach d ps ?st0")
  with a have r: "r = Some e" by (simp add: run_script_fst)
  with run have s: "snd (run_script d ps fs0) = st'" by (simp add: run_script_def)
  from forEach_abort_decomp[OF run[unfolded r]] s
  show "\<exists>k < length ps. e = WriteFailed (filepath d (ps ! k))
         \<and> \<not> existsSync (disk (snd (run_script d ps fs0))) (filepath d (ps ! k))
         \<and> forEach d (take k ps) \<lparr>disk = fs0, stdout = []\<rparr> = (None, snd (run_script d ps fs0))"
    by auto
qed

theorem error_policy_witness:
  "existsSync edited_disk ''/repo/docs/leetcode-75/stack/removing-stars-from-a-string.mdx''
   \<and> forEach ''/repo/scripts'' [removing_stars, untitled] \<lparr>disk = edited_disk, stdout = []\<rparr>
     = forEach ''/repo/scripts'' [untitled]
         \<lparr>disk = edited_disk,
          stdout = [Skipping ''/repo/docs/leetcode-75/stack/removing-stars-from-a-string.mdx'']\<rparr>
   \<and> \<not> writable locked_disk ''/repo/docs/leetcode-75/stack/removing-stars-from-a-string.mdx''
   \<and> fst (run_script ''/repo/scripts'' [untitled, removing_stars, removing_stars_again] locked_disk)
     = Some (WriteFailed ''/repo/docs/leetcode-75/stack/removing-stars-from-a-string.mdx'')
   \<and> stdout (snd (run_script ''/repo/scripts'' [untitled, removing_stars, removing_stars_again]
                   locked_disk))
     = [Created ''/repo/docs/leetcode-75/stack/.mdx'']
   \<and> \<not> existsSync
         (disk (snd (run_script ''/repo/scripts'' [untitled, removing_stars, removing_stars_again]
                       locked_disk)))
         ''/repo/docs/leetcode-75/stack/removing-stars-from-a-string.mdx''"
proof -
  let ?d = "''/repo/scripts''"
  let ?path = "''/repo/docs/leetcode-75/stack/removing-stars-from-a-string.mdx''"
  let ?mdx = "''/repo/docs/leetcode-75/stack/.mdx''"
  let ?ps = "[untitled, removing_stars, removing_stars_again]"
  let ?sa = "\<lparr>disk = edited_disk, stdout = []\<rparr>"
  let ?sb = "\<lparr>disk = locked_disk, stdout = []\<rparr>"
  let ?sc = "\<lparr>disk = locked_disk\<lparr>entries := (entries locked_disk)
                         (?mdx \<mapsto> File (generateProblemTemplate untitled))\<rparr>,
               stdout = [Created ?mdx]\<rparr>"
  note t = error_policy[where st = ?sa and d = ?d and p = removing_stars and rest = "[untitled]"
      and before = "[untitled]" and ?fs0.0 = locked_disk and ?st1.0 = ?sc and q = removing_stars
      and after = "[removing_stars_again]" and ps = ?ps and e = "WriteFailed ?path"]
  have h1: "existsSync (disk ?sa) (filepath ?d removing_stars)"
    by (simp add: fp_removing_stars existsSync_def edited_disk_def)
  have "process_problem ?d untitled ?sb = Inr ?sc"
    using process_problem_create[of ?sb ?d untitled]
    by (simp add: fp_untitled existsSync_def locked_disk_def)
  then have h2: "forEach ?d [untitled] ?sb = (None, ?sc)
        \<and> \<not> existsSync (disk ?sc) (filepath ?d removing_stars)
        \<and> \<not> writable (disk ?sc) (filepath ?d removing_stars)"
    by (simp add: fp_removing_stars existsSync_def locked_disk_def)
  from t[THEN conjunct1] h1
  have 1: "forEach ?d [removing_stars, untitled] ?sa
     = forEach ?d [untitled] \<lparr>disk = edited_disk, stdout = [Skipping ?path]\<rparr>"
    by (simp add: fp_removing_stars)
  from t[THEN conjunct2, THEN conjunct1] h2
  have 2: "run_script ?d ?ps locked_disk = (Some (WriteFailed ?path), ?sc)"
    by (simp add: fp_removing_stars)
  then have h3: "fst (run_script ?d ?ps locked_disk) = Some (WriteFailed ?path)"
    by simp
  from t[THEN conjunct2, THEN conjunct2] h3
  have 3: "\<exists>k < length ?ps. WriteFailed ?path = WriteFailed (filepath ?d (?ps ! k))
         \<and> \<not> existsSync (disk (snd (run_script ?d ?ps locked_disk))) (filepath ?d (?ps ! k))
         \<and> forEach ?d (take k ?ps) ?sb = (None, snd (run_script ?d ?ps locked_disk))"
    by (rule mp)
  have 4: "stdout (snd (run_script ?d ?ps locked_disk)) = [Created ?mdx]"
    "\<not> existsSync (disk (snd (run_script ?d ?ps locked_disk))) ?path"
    unfolding 2 by (simp_all add: existsSync_def locked_disk_def)
  have 0: "existsSync edited_disk ?path" "\<not> writable locked_disk ?path"
    using h1 h2 by (simp_all add: fp_removing_stars)
  from 0 1 h3 4 show ?thesis by blast
qed

text \<open>
  Claim C6, as amended. The target path of a descriptor is
  \<open>join(baseDir, folder, slug + ".mdx")\<close> where \<open>baseDir\<close> is
  \<open>join(__dirname, "..", "docs", "leetcode-75")\<close>. When the script's directory is an
  absolute path of ordinary segments and the folder is an ordinary segment, this is the
  parent of the script's directory, followed by \<open>docs/leetcode-75/<folder>/<slug>.mdx\<close>.
  After a run that completed, what existed before is unchanged, and every other path holds
  a file exactly when it is the target of a descriptor (the rendering of the first
  descriptor with that target): one new file for each target that did not exist.
\<close>

theorem output_path_layout:
  "(d \<noteq> [] \<longrightarrow>
      filepath d p = path_join [path_join [d, ''..'', ''docs'', ''leetcode-75''], folder p,
                                slugify (title p) @ ''.mdx''])
   \<and> (ds \<noteq> [] \<and> (\<forall>s\<in>set ds. plain_segment s) \<and> plain_segment (folder p) \<longrightarrow>
      filepath (CHR ''/'' # js_join ''/'' ds) p
        = CHR ''/'' # js_join ''/'' (butlast ds @
            [''docs'', ''leetcode-75'', folder p, slugify (title p) @ ''.mdx'']))
   \<and> (fst (run_script d ps fs0) = None \<longrightarrow>
      (\<forall>path. entries (disk (snd (run_script d ps fs0))) path =
         (case entries fs0 path of
            Some n \<Rightarrow> Some n
          | None \<Rightarrow> map_option (\<lambda>p. File (generateProblemTemplate p))
                      (find (\<lambda>p. filepath d p = path) ps))))"
proof (intro conjI impI)
  assume "d \<noteq> []"
  then show "filepath d p = path_join [path_join [d, ''..'', ''docs'', ''leetcode-75''], folder p,
                                slugify (title p) @ ''.mdx'']"
    by (rule filepath_assoc(2))
next
  assume "ds \<noteq> [] \<and> (\<forall>s\<in>set ds. plain_segment s) \<and> plain_segment (folder p)"
  then show "filepath (CHR ''/'' # js_join ''/'' ds) p
        = CHR ''/'' # js_join ''/'' (butlast ds @
            [''docs'', ''leetcode-75'', folder p, slugify (title p) @ ''.mdx''])"
    by (intro filepath_plain) simp_all
next
  assume a: "fst (run_script d ps fs0) = None"
  let ?st0 = "\<lparr>disk = fs0, stdout = []\<rparr>"
  obtain r st' where run0: "forEach d ps ?st0 = (r, st')" by (cases "forEach d ps ?st0")
  with a have run: "forEach d ps ?st0 = (None, st')" by (simp add: run_script_fst)
  from forEach_completed_disk[OF run] run
  show "\<forall>path. entries (disk (snd (run_script d ps fs0))) path =
         (case entries fs0 path of
            Some n \<Rightarrow> Some n
          | None \<Rightarrow> map_option (\<lambda>p. File (generateProblemTemplate p))
                      (find (\<lambda>p. filepath d p = path) ps))"
    by (simp add: run_script_disk)
qed

theorem output_path_layout_witness:
  "filepath ''/repo/scripts'' removing_stars
     = path_join [path_join [''/repo/scripts'', ''..'', ''docs'', ''leetcode-75''], ''stack'',
                  ''removing-stars-from-a-string.mdx'']
   \<and> filepath ''/repo/scripts'' removing_stars
     = ''/repo/docs/leetcode-75/stack/removing-stars-from-a-string.mdx''
   \<and> entries (disk (snd (run_script ''/repo/scripts'' [removing_stars] empty_disk)))
        ''/repo/docs/leetcode-75/stack/removing-stars-from-a-string.mdx''
     = Some (File (generateProblemTemplate removing_stars))
   \<and> entries (disk (snd (run_script ''/repo/scripts'' [removing_stars] empty_disk)))
        ''/repo/docs/leetcode-75/stack/asteroid-collision.mdx'' = None"
proof -
  note sl = slug_removing_stars and fp = fp_removing_stars
  have d: "''/repo/scripts'' = CHR ''/'' # js_join ''/'' [''repo'', ''scripts'']" by simp
  have pl: "[''repo'', ''scripts''] \<noteq> [] \<and> (\<forall>s\<in>set [''repo'', ''scripts'']. plain_segment s)
            \<and> plain_segment (folder removing_stars)"
    by (simp add: plain_segment_def removing_stars_def)
  have ok: "fst (run_script ''/repo/scripts'' [removing_stars] empty_disk) = None"
    by (simp add: run_script_completes empty_disk_def)
  note t = output_path_layout[of "''/repo/scripts''" removing_stars "[''repo'', ''scripts'']"
      "[removing_stars]" empty_disk]
  note t1 = t[THEN conjunct1] and t2 = t[THEN conjunct2, THEN conjunct1]
    and t3 = t[THEN conjunct2, THEN conjunct2]
  from t1 have 1: "filepath ''/repo/scripts'' removing_stars
     = path_join [path_join [''/repo/scripts'', ''..'', ''docs'', ''leetcode-75''], ''stack'',
                  ''removing-stars-from-a-string.mdx'']"
    using sl by (simp add: removing_stars_def)
  from t2 pl have 2: "filepath ''/repo/scripts'' removing_stars
     = ''/repo/docs/leetcode-75/stack/removing-stars-from-a-string.mdx''"
    unfolding d[symmetric] using sl by (simp add: removing_stars_def)
  from t3 ok have 3: "\<forall>path. entries (disk (snd (run_script ''/repo/scripts'' [removing_stars] empty_disk))) path =
         (case entries empty_disk path of
            Some n \<Rightarrow> Some n
          | None \<Rightarrow> map_option (\<lambda>p. File (generateProblemTemplate p))
                      (find (\<lambda>p. filepath ''/repo/scripts'' p = path) [removing_stars]))"
    by blast
  from 3 have 4: "entries (disk (snd (run_script ''/repo/scripts'' [removing_stars] empty_disk)))
        ''/repo/docs/leetcode-75/stack/removing-stars-from-a-string.mdx''
     = Some (File (generateProblemTemplate removing_stars))"
    by (simp add: fp empty_disk_def)
  from 3 have 5: "entries (disk (snd (run_script ''/repo/scripts'' [removing_stars] empty_disk)))
        ''/repo/docs/leetcode-75/stack/asteroid-collision.mdx'' = None"
    by (simp add: fp empty_disk_def)
  from 1 2 4 5 show ?thesis by blast
qed

text \<open>
  The claim as the specification states it places the files at
  \<open>docs/<category>/<slug>.<ext>\<close>. For the table's entry \<open>Removing Stars From a String\<close>
  and a script in \<open>/repo/scripts\<close> that path would be
  \<open>/repo/docs/stack/removing-stars-from-a-string.mdx\<close>; the script's target has the
  segment \<open>leetcode-75\<close> between \<open>docs\<close> and the folder.
\<close>

theorem output_path_layout_counterexample:
  "filepath ''/repo/scripts'' removing_stars
     = ''/repo/docs/leetcode-75/stack/removing-stars-from-a-string.mdx''
   \<and> path_join [path_join [''/repo/scripts'', ''..'', ''docs''], folder removing_stars,
                 slugify (title removing_stars) @ ''.mdx'']
     = ''/repo/docs/stack/removing-stars-from-a-string.mdx''
   \<and> filepath ''/repo/scripts'' removing_stars
     \<noteq> path_join [path_join [''/repo/scripts'', ''..'', ''docs''], folder removing_stars,
                  slugify (title removing_stars) @ ''.mdx'']"
proof -
  have "path_join [path_join [''/repo/scripts'', ''..'', ''docs''], folder removing_stars,
                 slugify (title removing_stars) @ ''.mdx'']
     = ''/repo/docs/stack/removing-stars-from-a-string.mdx''"
    by code_simp
  then show ?thesis by (simp add: fp_removing_stars)
qed

text \<open>
  Claim C7, as amended. The script prints one line for each descriptor it processes, in
  input order: the skipped line when the target existed at the start of the run or is the
  target of an earlier descriptor, the created line otherwise, each with the target path.
  A run that completes prints a line for every descriptor and then one fixed summary
  line; an aborted run prints the lines of the descriptors before the failing one and no
  summary line. The summary line carries no counts.
\<close>

theorem report_shape:
  "\<exists>k \<le> length ps.
      (fst (run_script d ps fs0) = None \<longleftrightarrow> k = length ps)
      \<and> stdout (snd (run_script d ps fs0)) =
          map (\<lambda>i. if existsSync fs0 (filepath d (ps ! i))
                        \<or> (\<exists>j < i. filepath d (ps ! j) = filepath d (ps ! i))
                    then Skipping (filepath d (ps ! i)) else Created (filepath d (ps ! i))) [0..<k]
          @ (if fst (run_script d ps fs0) = None then [AllGenerated] else [])"
proof -
  let ?st0 = "\<lparr>disk = fs0, stdout = []\<rparr>"
  obtain r st' where run: "forEach d ps ?st0 = (r, st')" by (cases "forEach d ps ?st0")
  from forEach_log_prefix[OF run] run show ?thesis
    by (simp add: run_script_fst run_script_stdout)
qed

theorem report_shape_witness:
  "fst (run_script ''/repo/scripts'' [removing_stars, removing_stars_again] empty_disk) = None
   \<and> stdout (snd (run_script ''/repo/scripts'' [removing_stars, removing_stars_again] empty_disk))
     = [Created ''/repo/docs/leetcode-75/stack/removing-stars-from-a-string.mdx'',
        Skipping ''/repo/docs/leetcode-75/stack/removing-stars-from-a-string.mdx'',
        AllGenerated]"
proof -
  let ?d = "''/repo/scripts''"
  let ?ps = "[removing_stars, removing_stars_again]"
  let ?f = "\<lambda>i. if existsSync empty_disk (filepath ?d (?ps ! i))
                        \<or> (\<exists>j < i. filepath ?d (?ps ! j) = filepath ?d (?ps ! i))
                    then Skipping (filepath ?d (?ps ! i)) else Created (filepath ?d (?ps ! i))"
  have ok: "fst (run_script ?d ?ps empty_disk) = None"
    by (simp add: run_script_completes empty_disk_def)
  from report_shape[of ?ps ?d empty_disk] obtain k where kk: "k \<le> length ?ps \<and>
    (fst (run_script ?d ?ps empty_disk) = None \<longleftrightarrow> k = length ?ps) \<and>
    stdout (snd (run_script ?d ?ps empty_disk)) =
          map ?f [0..<k] @ (if fst (run_script ?d ?ps empty_disk) = None then [AllGenerated] else [])"
    by (erule exE)
  from kk ok have k2: "k = Suc (Suc 0)" by simp
  have upt: "[0..<Suc (Suc 0)] = [0, Suc 0]" by (simp add: upt_rec)
  have ex: "\<not> existsSync empty_disk p" for p by (simp add: existsSync_def empty_disk_def)
  have nth: "?ps ! 0 = removing_stars" "?ps ! Suc 0 = removing_stars_again" by simp_all
  have f0: "?f 0 = Created ''/repo/docs/leetcode-75/stack/removing-stars-from-a-string.mdx''"
    unfolding nth by (simp add: ex fp_removing_stars)
  have "\<exists>j < Suc 0. filepath ?d (?ps ! j) = filepath ?d (?ps ! Suc 0)"
    by (intro exI[of _ 0]) (simp add: fp_removing_stars fp_removing_stars_again)
  then have f1: "?f (Suc 0) = Skipping ''/repo/docs/leetcode-75/stack/removing-stars-from-a-string.mdx''"
    unfolding nth(2) by (simp add: fp_removing_stars_again)
  have m: "map ?f [0..<k] = [?f 0, ?f (Suc 0)]" unfolding k2 upt by (simp only: list.map)
  have tl: "(if fst (run_script ?d ?ps empty_disk) = None then [AllGenerated] else []) = [AllGenerated]"
    using ok by simp
  note s = kk[THEN conjunct2, THEN conjunct2, unfolded m tl f0 f1]
  then have "stdout (snd (run_script ?d ?ps empty_disk))
     = [Created ''/repo/docs/leetcode-75/stack/removing-stars-from-a-string.mdx'',
        Skipping ''/repo/docs/leetcode-75/stack/removing-stars-from-a-string.mdx'',
        AllGenerated]"
    by simp
  with ok show ?thesis by blast
qed

text \<open>
  The summary line does not tell the counts: the same descriptor list on two file systems
  gives one created file and none skipped in one run, none created and one skipped in the
  other, and the same last line.
\<close>

theorem report_shape_counterexample:
  "last (stdout (snd (run_script ''/repo/scripts'' [removing_stars] empty_disk)))
     = last (stdout (snd (run_script ''/repo/scripts'' [removing_stars] edited_disk)))
   \<and> line_text (last (stdout (snd (run_script ''/repo/scripts'' [removing_stars] empty_disk))))
     = ''All LeetCode 75 problem files generated!''
   \<and> length (filter is_created (stdout (snd (run_script ''/repo/scripts'' [removing_stars] empty_disk))))
     \<noteq> length (filter is_created (stdout (snd (run_script ''/repo/scripts'' [removing_stars] edited_disk))))
   \<and> length (filter is_skipping (stdout (snd (run_script ''/repo/scripts'' [removing_stars] empty_disk))))
     \<noteq> length (filter is_skipping (stdout (snd (run_script ''/repo/scripts'' [removing_stars] edited_disk))))"
  by (simp add: run_script_single fp_removing_stars existsSync_def empty_disk_def edited_disk_def)

text \<open>
  Claim C8. When two descriptors of a run have the same folder and titles with the same
  slug, they have the same target path. If that path does not exist at the start, the
  first descriptor with that target is the one before which no descriptor has it, and the
  run completes, then the file at that path holds the rendering of the first descriptor,
  the line printed for the first is the created line, and the line printed for the later
  one is the skipped line.
\<close>

theorem same_run_collision:
  assumes "folder q = folder p" "slugify (title q) = slugify (title p)"
      "\<not> existsSync fs0 (filepath d p)" "\<forall>x\<in>set before. filepath d x \<noteq> filepath d p"
      "fst (run_script d (before @ p # between @ q # after) fs0) = None"
  shows "filepath d q = filepath d p
     \<and> entries (disk (snd (run_script d (before @ p # between @ q # after) fs0))) (filepath d p)
         = Some (File (generateProblemTemplate p))
     \<and> stdout (snd (run_script d (before @ p # between @ q # after) fs0)) ! length before
         = Created (filepath d p)
     \<and> stdout (snd (run_script d (before @ p # between @ q # after) fs0))
          ! (length before + 1 + length between)
         = Skipping (filepath d p)"
proof -
  let ?ps = "before @ p # between @ q # after"
  let ?st0 = "\<lparr>disk = fs0, stdout = []\<rparr>"
  let ?fp = "filepath d"
  have same: "?fp q = ?fp p" using assms(1,2) by (rule filepath_same_folder_slug)
  obtain r st' where run0: "forEach d ?ps ?st0 = (r, st')" by (cases "forEach d ?ps ?st0")
  with assms(5) have run: "forEach d ?ps ?st0 = (None, st')" by (simp add: run_script_fst)
  have R: "snd (run_script d ?ps fs0) = st'\<lparr>stdout := stdout st' @ [AllGenerated]\<rparr>"
    using run by (simp add: run_script_def)
  have "find (\<lambda>x. ?fp x = ?fp p) ?ps = Some p"
    using assms(4) by (intro find_first) auto
  then have 1: "entries (disk st') (?fp p) = Some (File (generateProblemTemplate p))"
    using forEach_completed_disk[OF run] assms(3) by (simp add: existsSync_def)
  from forEach_completed_log[OF run] obtain os where os: "stdout st' = os" "length os = length ?ps"
      "\<forall>i < length ?ps. os ! i =
        (if existsSync fs0 (?fp (?ps ! i)) \<or> (\<exists>j < i. ?fp (?ps ! j) = ?fp (?ps ! i))
         then Skipping (?fp (?ps ! i)) else Created (?fp (?ps ! i)))" by auto
  have at_p: "?ps ! length before = p" by simp
  have at_q: "?ps ! (length before + 1 + length between) = q"
    by (simp add: nth_append)
  have "\<not> (\<exists>j < length before. ?fp (?ps ! j) = ?fp p)"
    using assms(4) by (auto simp: nth_append)
  with os(3)[rule_format, of "length before"] assms(3) at_p
  have 2: "os ! length before = Created (?fp p)" by simp
  have "\<exists>j < length before + 1 + length between. ?fp (?ps ! j) = ?fp q"
    using same at_p by (intro exI[of _ "length before"]) simp
  with os(3)[rule_format, of "length before + 1 + length between"] at_q same
  have 3: "os ! (length before + 1 + length between) = Skipping (?fp p)" by simp
  have "length before < length os" "length before + 1 + length between < length os"
    using os(2) by simp_all
  with 1 2 3 same os(1) R show ?thesis by (simp add: nth_append)
qed

theorem same_run_collision_witness:
  "filepath ''/repo/scripts'' removing_stars_again = filepath ''/repo/scripts'' removing_stars
   \<and> position removing_stars_again \<noteq> position removing_stars
   \<and> entries (disk (snd (run_script ''/repo/scripts''
                 [untitled, removing_stars, removing_stars_again] empty_disk)))
        ''/repo/docs/leetcode-75/stack/removing-stars-from-a-string.mdx''
     = Some (File (generateProblemTemplate removing_stars))
   \<and> stdout (snd (run_script ''/repo/scripts''
                 [untitled, removing_stars, removing_stars_again] empty_disk)) ! 1
     = Created ''/repo/docs/leetcode-75/stack/removing-stars-from-a-string.mdx''
   \<and> stdout (snd (run_script ''/repo/scripts''
                 [untitled, removing_stars, removing_stars_again] empty_disk)) ! 2
     = Skipping ''/repo/docs/leetcode-75/stack/removing-stars-from-a-string.mdx''"
proof -
  let ?d = "''/repo/scripts''"
  have h1: "folder removing_stars_again = folder removing_stars"
    by (simp add: removing_stars_def removing_stars_again_def)
  have h2: "slugify (title removing_stars_again) = slugify (title removing_stars)"
    by (simp add: slug_removing_stars slug_removing_stars_again)
  have h3: "\<not> existsSync empty_disk (filepath ?d removing_stars)"
    by (simp add: existsSync_def empty_disk_def)
  have h4: "\<forall>x\<in>set [untitled]. filepath ?d x \<noteq> filepath ?d removing_stars"
    by (simp add: fp_untitled fp_removing_stars)
  have h5: "fst (run_script ?d ([untitled] @ removing_stars # [] @ removing_stars_again # []) empty_disk) = None"
    by (simp add: run_script_completes empty_disk_def)
  have ne: "position removing_stars_again \<noteq> position removing_stars"
    by (simp add: removing_stars_def removing_stars_again_def)
  from same_run_collision[OF h1 h2 h3 h4 h5] ne show ?thesis
    by (simp add: fp_removing_stars numeral_2_eq_2)
qed

text \<open>
  Claim C9. A title without a character of \<open>[a-z0-9]\<close> after lower-casing has the empty
  slug, so the target path is \<open>join(docsPath, ".mdx")\<close>: for an absolute script directory,
  the file named \<open>.mdx\<close> directly inside the folder's directory. The callback has no special
  case for it: when that path does not exist and can be written, the file is created and
  the created line is printed.
\<close>

theorem empty_slug:
  assumes "\<forall>c\<in>set (toLowerCase (title p)). \<not> is_slug_char c"
  shows "slugify (title p) = []
     \<and> filepath d p = path_join [docsPath d p, ''.mdx'']
     \<and> (d \<noteq> [] \<and> hd d = CHR ''/'' \<longrightarrow>
          filepath d p = (if last (docsPath d p) = CHR ''/'' then docsPath d p @ ''.mdx''
                          else docsPath d p @ ''/.mdx''))
     \<and> (\<not> existsSync (disk st) (filepath d p) \<and> writable (disk st) (filepath d p) \<longrightarrow>
          process_problem d p st =
            Inr \<lparr>disk = (disk st)\<lparr>entries := (entries (disk st))
                           (filepath d p \<mapsto> File (generateProblemTemplate p))\<rparr>,
                 stdout = stdout st @ [Created (filepath d p)]\<rparr>)"
proof -
  have 1: "slugify (title p) = []" using assms by (rule slugify_empty)
  then have 2: "filepath d p = path_join [docsPath d p, ''.mdx'']"
    by (simp add: filepath_def)
  have 3: "filepath d p = (if last (docsPath d p) = CHR ''/'' then docsPath d p @ ''.mdx''
                          else docsPath d p @ ''/.mdx'')" if d: "d \<noteq> [] \<and> hd d = CHR ''/''"
  proof -
    let ?args = "filter (\<lambda>a. a \<noteq> []) [d, ''..'', ''docs'', ''leetcode-75'', folder p]"
    let ?P = "js_join ''/'' ?args"
    have args: "?args \<noteq> []" "hd ?args = d" using d by simp_all
    have P: "?P \<noteq> []" using d by (intro js_join_nonempty) auto
    have "hd ?P = hd (hd ?args)" using args d by (intro hd_js_join) simp_all
    then have hdP: "hd ?P = CHR ''/''" using d args by simp
    have dp: "docsPath d p = normalize ?P" using d by (simp add: docsPath_def path_join_def)
    have pl: "plain_segment ''.mdx''" by (simp add: plain_segment_def)
    have "path_join [docsPath d p, ''.mdx''] = normalize (docsPath d p @ CHR ''/'' # ''.mdx'')"
      using normalize_nonempty[of ?P] by (simp add: path_join_def dp)
    with normalize_child[OF P hdP pl] 2 show ?thesis by (simp add: dp)
  qed
  have 4: "process_problem d p st =
            Inr \<lparr>disk = (disk st)\<lparr>entries := (entries (disk st))
                           (filepath d p \<mapsto> File (generateProblemTemplate p))\<rparr>,
                 stdout = stdout st @ [Created (filepath d p)]\<rparr>"
    if "\<not> existsSync (disk st) (filepath d p) \<and> writable (disk st) (filepath d p)"
    using that by (simp add: process_problem_create)
  from 1 2 3 4 show ?thesis by blast
qed

theorem empty_slug_witness:
  "slugify ''???'' = []
   \<and> filepath ''/repo/scripts'' untitled = ''/repo/docs/leetcode-75/stack/.mdx''
   \<and> docsPath ''/repo/scripts'' untitled = ''/repo/docs/leetcode-75/stack''
   \<and> stdout (snd (run_script ''/repo/scripts'' [untitled] empty_disk))
       = [Created ''/repo/docs/leetcode-75/stack/.mdx'', AllGenerated]"
proof -
  have h: "\<forall>c\<in>set (toLowerCase (title untitled)). \<not> is_slug_char c"
    by (simp add: untitled_def toLowerCase_def toLowerCase_char_def is_slug_char_def)
  have dp: "docsPath ''/repo/scripts'' untitled = ''/repo/docs/leetcode-75/stack''" by code_simp
  note t = empty_slug[OF h, of "''/repo/scripts''" "\<lparr>disk = empty_disk, stdout = []\<rparr>"]
  from t have 1: "slugify ''???'' = []" by (simp add: untitled_def)
  from t[THEN conjunct2, THEN conjunct2, THEN conjunct1]
  have 2: "filepath ''/repo/scripts'' untitled = ''/repo/docs/leetcode-75/stack/.mdx''"
    by (simp add: dp)
  have 3: "stdout (snd (run_script ''/repo/scripts'' [untitled] empty_disk))
       = [Created ''/repo/docs/leetcode-75/stack/.mdx'', AllGenerated]"
    using t[THEN conjunct2, THEN conjunct2, THEN conjunct2]
    by (simp add: 2 run_script_def empty_disk_def existsSync_def)
  from 1 2 dp 3 show ?thesis by blast
qed

end
